theory Spec2Isabelle
  imports Complex_Main "HOL-Library.Log_Nat"
begin

unbundle bit_operations_syntax

section \<open>Tensors\<close>

text \<open>
  A tensor is a shape together with an element function on index lists; only the
  indices that are valid for the shape carry meaning. The elements of the float, int8
  and long tensors of the program are modelled by exact numbers: every value the units
  below compute from bit inputs is a small integer or half-integer, which all of these
  element types hold exactly.
\<close>

record 'a tensor =
  shape :: "nat list"
  elem :: "nat list \<Rightarrow> 'a"

datatype error =
  ValueError | AssertionError | RuntimeError | IndexError | AttributeError | TypeError

definition valid_idx :: "nat list \<Rightarrow> nat list \<Rightarrow> bool" where
  "valid_idx sh idx \<longleftrightarrow> list_all2 (<) idx sh"

text \<open>A raised exception is the left summand; \<open>ebind\<close> runs the rest of a method
  body unless an earlier statement has raised.\<close>

definition ebind :: "error + 'a \<Rightarrow> ('a \<Rightarrow> error + 'b) \<Rightarrow> error + 'b" where
  "ebind m f = (case m of Inl e \<Rightarrow> Inl e | Inr x \<Rightarrow> f x)"

definition of_option :: "error \<Rightarrow> 'a option \<Rightarrow> error + 'a" where
  "of_option e m = (case m of None \<Rightarrow> Inl e | Some x \<Rightarrow> Inr x)"

text \<open>\<^verbatim>\<open>torch.zeros(1).fill_(v)\<close> and friends: a tensor of one shape holding one value.\<close>

definition tfull :: "nat list \<Rightarrow> 'a \<Rightarrow> 'a tensor" where
  "tfull sh v = \<lparr>shape = sh, elem = (\<lambda>idx. v)\<rparr>"

text \<open>A one-dimensional tensor from the list of its elements.\<close>

definition tvec :: "'a list \<Rightarrow> 'a tensor" where
  "tvec xs = \<lparr>shape = [length xs], elem = (\<lambda>idx. xs ! hd idx)\<rparr>"

text \<open>A two-dimensional tensor from the list of its rows, \<open>r\<close> rows of \<open>c\<close> columns.\<close>

definition tmat :: "nat \<Rightarrow> nat \<Rightarrow> 'a list list \<Rightarrow> 'a tensor" where
  "tmat r c xss = \<lparr>shape = [r, c], elem = (\<lambda>idx. xss ! hd idx ! hd (tl idx))\<rparr>"

text \<open>An elementwise operation with a Python scalar or with a one-element parameter
  that is never reshaped.\<close>

definition tmap :: "('a \<Rightarrow> 'b) \<Rightarrow> 'a tensor \<Rightarrow> 'b tensor" where
  "tmap f t = \<lparr>shape = shape t, elem = (\<lambda>idx. f (elem t idx))\<rparr>"

text \<open>Broadcasting of two shapes, aligned at the last dimension: two sizes are
  compatible when they are equal or one of them is 1.\<close>

fun bshape_rev :: "nat list \<Rightarrow> nat list \<Rightarrow> nat list option" where
  "bshape_rev [] ys = Some ys"
| "bshape_rev (x # xs) [] = Some (x # xs)"
| "bshape_rev (x # xs) (y # ys) =
     (if x = y \<or> y = 1 then map_option ((#) x) (bshape_rev xs ys)
      else if x = 1 then map_option ((#) y) (bshape_rev xs ys)
      else None)"

definition bshape :: "nat list \<Rightarrow> nat list \<Rightarrow> nat list option" where
  "bshape a b = map_option rev (bshape_rev (rev a) (rev b))"

text \<open>The index of the operand element that feeds the result element at \<open>idx\<close>: the
  leading dimensions the operand lacks are dropped, a dimension of size 1 is read at 0.\<close>

definition bidx :: "nat list \<Rightarrow> nat list \<Rightarrow> nat list" where
  "bidx sh idx = map2 (\<lambda>n i. if n = 1 then 0 else i) sh (drop (length idx - length sh) idx)"

definition tzip :: "('a \<Rightarrow> 'b \<Rightarrow> 'c) \<Rightarrow> 'a tensor \<Rightarrow> 'b tensor \<Rightarrow> error + 'c tensor" where
  "tzip f a b =
     (case bshape (shape a) (shape b) of
        None \<Rightarrow> Inl RuntimeError
      | Some sh \<Rightarrow>
          Inr \<lparr>shape = sh,
               elem = (\<lambda>idx. f (elem a (bidx (shape a) idx)) (elem b (bidx (shape b) idx)))\<rparr>)"

text \<open>The element of an operand \<open>t\<close> that broadcasting reads for the position \<open>idx\<close>
  of a result; at an index that is valid for \<open>t\<close> it is the element there.\<close>

definition lane :: "'a tensor \<Rightarrow> nat list \<Rightarrow> 'a" where
  "lane t idx = elem t (bidx (shape t) idx)"

text \<open>An in-place operation (\<^verbatim>\<open>add_\<close>, \<open>sub_\<close>): the broadcast result must have the
  shape of the tensor that is written.\<close>

definition tzip_inplace :: "('a \<Rightarrow> 'b \<Rightarrow> 'a) \<Rightarrow> 'a tensor \<Rightarrow> 'b tensor \<Rightarrow> error + 'a tensor" where
  "tzip_inplace f a b =
     (case tzip f a b of
        Inl e \<Rightarrow> Inl e
      | Inr r \<Rightarrow> if shape r = shape a then Inr r else Inl RuntimeError)"

text \<open>Python's indexing of a dimension: negative numbers count from the end.\<close>

definition py_dim :: "nat \<Rightarrow> int \<Rightarrow> nat option" where
  "py_dim n d =
     (if 0 \<le> d \<and> d < int n then Some (nat d)
      else if - int n \<le> d \<and> d < 0 then Some (nat (d + int n))
      else None)"

definition drop_at :: "nat \<Rightarrow> 'a list \<Rightarrow> 'a list" where
  "drop_at d xs = take d xs @ drop (Suc d) xs"

definition insert_at :: "nat \<Rightarrow> 'a \<Rightarrow> 'a list \<Rightarrow> 'a list" where
  "insert_at d k xs = take d xs @ k # drop d xs"

text \<open>\<^verbatim>\<open>torch.sum(t, d)\<close>: the sum along dimension \<open>d\<close>, which disappears from the shape.\<close>

definition tsum :: "nat \<Rightarrow> ('a::monoid_add) tensor \<Rightarrow> 'a tensor" where
  "tsum d t =
     \<lparr>shape = drop_at d (shape t),
      elem = (\<lambda>idx. sum_list (map (\<lambda>k. elem t (insert_at d k idx)) [0..<shape t ! d]))\<rparr>"

text \<open>\<^verbatim>\<open>torch.unbind(torch.index_select(t, d, k), d)[0]\<close>: the lane \<open>k\<close> of \<open>t\<close> along \<open>d\<close>.\<close>

definition tlane :: "nat \<Rightarrow> nat \<Rightarrow> 'a tensor \<Rightarrow> 'a tensor" where
  "tlane d k t = \<lparr>shape = drop_at d (shape t), elem = (\<lambda>idx. elem t (insert_at d k idx))\<rparr>"

definition is_bits :: "('a::zero_neq_one) tensor \<Rightarrow> bool" where
  "is_bits t \<longleftrightarrow> (\<forall>idx. valid_idx (shape t) idx \<longrightarrow> elem t idx = 0 \<or> elem t idx = 1)"

section \<open>Single and double precision\<close>

text \<open>
  The accumulators, bounds and offsets of UnaryAdd and UnaryLinear are float32 tensors
  (\<^verbatim>\<open>torch.zeros(1)\<close>), and \<^verbatim>\<open>.item()\<close> hands their elements to Python as doubles. A binary
  floating-point number with \<open>p\<close> bits of precision is modelled by the real number it
  denotes; every arithmetic operation of the program is the exact operation followed by
  \<open>fl_round\<close>, rounding to the nearest such number, ties to the even significand, with
  gradual underflow below the exponent \<open>emin\<close>. A result of magnitude \<open>2 ^ 128\<close> or more,
  which float32 holds as an infinity, has no real counterpart and is not modelled.
\<close>

definition pow2 :: "int \<Rightarrow> real" where
  "pow2 e = (if 0 \<le> e then 2 ^ nat e else 1 / 2 ^ nat (- e))"

text \<open>The exponent of a positive number: \<open>pow2 (ilog2 x) \<le> x < pow2 (ilog2 x + 1)\<close>.\<close>

definition ilog2 :: "real \<Rightarrow> int" where
  "ilog2 x =
     (if 1 \<le> x then int (floorlog 2 (nat \<lfloor>x\<rfloor>)) - 1
      else - int (floorlog 2 (nat (\<lceil>1 / x\<rceil> - 1))))"

definition round_even :: "real \<Rightarrow> int" where
  "round_even y =
     (let f = \<lfloor>y\<rfloor>; d = y - real_of_int f
      in if d < 1 / 2 then f else if 1 / 2 < d then f + 1 else if even f then f else f + 1)"

definition fl_round :: "nat \<Rightarrow> int \<Rightarrow> real \<Rightarrow> real" where
  "fl_round p emin x =
     (if x = 0 then 0
      else let e = max (ilog2 \<bar>x\<bar>) emin; q = pow2 (e - int p + 1)
           in real_of_int (round_even (x / q)) * q)"

definition f32 :: "real \<Rightarrow> real" where
  "f32 x = fl_round 24 (- 126) x"

definition f64 :: "real \<Rightarrow> real" where
  "f64 x = fl_round 53 (- 1022) x"

text \<open>\<^verbatim>\<open>torch.sum(t.type(torch.float), d)\<close>: the elements are converted to float32 and
  the sum along \<open>d\<close> is a float32. The order in which torch accumulates a reduction is
  not fixed by its interface; the sum is rounded once here, which is the value of every
  order of accumulation whose partial sums are representable, as they are for bit
  inputs on up to \<open>2 ^ 24\<close> lanes.\<close>

definition tsum_f32 :: "nat \<Rightarrow> real tensor \<Rightarrow> real tensor" where
  "tsum_f32 d t = tmap f32 (tsum d (tmap f32 t))"

section \<open>kernel/add.py: UnaryAdd\<close>

record UnaryAdd =
  mode :: string
  scaled :: bool
  acc_dim :: int
  acc_bound :: real
  offset :: real
  accumulator :: "real tensor"
  out_accumulator :: "real tensor option"

definition UnaryAdd_init :: "string \<Rightarrow> bool \<Rightarrow> int \<Rightarrow> UnaryAdd" where
  "UnaryAdd_init m s d =
     \<lparr>mode = m, scaled = s, acc_dim = d, acc_bound = 0, offset = 0,
      accumulator = tfull [1] 0,
      out_accumulator = (if s = False then Some (tfull [1] 0) else None)\<rparr>"

text \<open>
  \<^verbatim>\<open>acc_bound.fill_(n)\<close> stores the float32 nearest to the size \<open>n\<close> of the reduction
  axis; \<^verbatim>\<open>(self.acc_bound.item()-1)/2\<close> is computed on Python doubles and stored as a
  float32; the additions and subtractions on the accumulators are float32 operations.
\<close>

definition UnaryAdd_forward :: "UnaryAdd \<Rightarrow> real tensor \<Rightarrow> error + (real tensor \<times> UnaryAdd)" where
  "UnaryAdd_forward st input =
     ebind (of_option IndexError (py_dim (length (shape input)) (acc_dim st))) (\<lambda>d.
       let st1 = st\<lparr>acc_bound := f32 (real (shape input ! d))\<rparr>;
           st2 = (if mode st1 = ''bipolar''
                  then st1\<lparr>offset := f32 (f64 (f64 (acc_bound st1 - 1) / 2))\<rparr> else st1)
       in ebind (tzip (\<lambda>a s. f32 (a + s)) (accumulator st2) (tsum_f32 d input)) (\<lambda>acc.
            let st3 = st2\<lparr>accumulator := acc\<rparr> in
            if scaled st3 = True then
              let output = tmap (\<lambda>a. if a \<ge> acc_bound st3 then 1 else 0) (accumulator st3)
              in ebind (tzip_inplace (\<lambda>a b. f32 (a - b)) (accumulator st3)
                          (tmap (\<lambda>out. f32 (out * acc_bound st3)) output)) (\<lambda>acc'.
                   Inr (output, st3\<lparr>accumulator := acc'\<rparr>))
            else
              let st4 = st3\<lparr>accumulator := tmap (\<lambda>a. f32 (a - offset st3)) (accumulator st3)\<rparr>
              in ebind (of_option AttributeError (out_accumulator st4)) (\<lambda>oacc.
                   ebind (tzip (\<lambda>a b. if a > b then 1 else 0) (accumulator st4) oacc) (\<lambda>output.
                     ebind (tzip (\<lambda>a b. f32 (a + b)) oacc output) (\<lambda>oacc'.
                       Inr (output, st4\<lparr>out_accumulator := Some oacc'\<rparr>))))))"

text \<open>A run of forward calls, one per cycle; it stops at the first call that raises.\<close>

fun UnaryAdd_run :: "UnaryAdd \<Rightarrow> real tensor list \<Rightarrow> error + (real tensor list \<times> UnaryAdd)" where
  "UnaryAdd_run st [] = Inr ([], st)"
| "UnaryAdd_run st (x # xs) =
     ebind (UnaryAdd_forward st x) (\<lambda>(out, st').
       ebind (UnaryAdd_run st' xs) (\<lambda>(outs, st''). Inr (out # outs, st'')))"

section \<open>kernel/add.py: GainesAdd\<close>

text \<open>Python's indexing of a sequence: negative numbers count from the end, anything
  out of range raises IndexError.\<close>

definition py_nth :: "'a list \<Rightarrow> int \<Rightarrow> error + 'a" where
  "py_nth xs i = ebind (of_option IndexError (py_dim (length xs) i)) (\<lambda>k. Inr (xs ! k))"

text \<open>\<^verbatim>\<open>torch.sum(input, dim)\<close> with a Python dimension; a zero-dimensional tensor
  accepts the dimensions 0 and -1 and is its own sum.\<close>

definition tsum_py :: "('a::monoid_add) tensor \<Rightarrow> int \<Rightarrow> error + 'a tensor" where
  "tsum_py t dm =
     (if shape t = [] \<and> (dm = 0 \<or> dm = -1) then Inr t
      else ebind (of_option IndexError (py_dim (length (shape t)) dm)) (\<lambda>d. Inr (tsum d t)))"

text \<open>
  The index sequence \<open>g_rng\<close> is the value of \<^verbatim>\<open>RNG(rng_width, rng_dim, rng, rtype)()\<close>,
  which is not part of these sources; it is a parameter of the constructor here. The
  constructor receives \<open>acc_dim\<close> but, unlike the one of UnaryAdd, never stores it:
  \<^verbatim>\<open>self.acc_dim\<close> stays the zero it is created with.
\<close>

record GainesAdd =
  g_mode :: string
  g_scaled :: bool
  g_acc_dim :: int
  g_rng :: "int list"
  g_rng_idx :: int

definition GainesAdd_init :: "string \<Rightarrow> bool \<Rightarrow> int \<Rightarrow> int list \<Rightarrow> error + GainesAdd" where
  "GainesAdd_init m s acc_dim_arg rng_seq =
     (if m = ''bipolar'' \<and> s = False then Inl ValueError
      else Inr \<lparr>g_mode = m, g_scaled = s, g_acc_dim = 0, g_rng = rng_seq, g_rng_idx = 0\<rparr>)"

definition GainesAdd_forward :: "GainesAdd \<Rightarrow> real tensor \<Rightarrow> error + (real tensor \<times> GainesAdd)" where
  "GainesAdd_forward st input =
     (if g_scaled st = True then
        ebind (py_nth (g_rng st) (g_rng_idx st)) (\<lambda>randNum.
          ebind (of_option IndexError (py_dim (length (shape input)) (g_acc_dim st))) (\<lambda>d.
            if \<not> randNum < int (shape input ! d) then Inl AssertionError
            else if randNum < 0 then Inl IndexError
            else
              let output = tlane d (nat randNum) input
              in Inr (output,
                      st\<lparr>g_rng_idx := (g_rng_idx st + 1) mod int (length (g_rng st))\<rparr>)))
      else
        ebind (tsum_py input (g_acc_dim st)) (\<lambda>s.
          Inr (tmap (\<lambda>x. if x > 0 then 1 else 0) s, st)))"

section \<open>kernel/mul.py: FSUMul and GainesMul\<close>

text \<open>
  Modelled from the spec: the bitstream generator \<^verbatim>\<open>BSGen\<close> (UnarySim.stream.gen) is
  not among the sources. The spec (4.1): given a static magnitude, scaled to the integer
  range of the sequence, and a per-lane cycle counter, it emits bit = 1 if
  \<^verbatim>\<open>sequence[counter mod period] < scaled_magnitude\<close> else 0, for an index tensor shaped
  to broadcast against the magnitude tensor. It is a pure function of magnitude, counter
  and sequence.
\<close>

definition bs_bit :: "int list \<Rightarrow> real \<Rightarrow> int \<Rightarrow> int" where
  "bs_bit rng_seq s i =
     (if real_of_int (rng_seq ! nat (i mod int (length rng_seq))) < s then 1 else 0)"

definition BSGen :: "real tensor \<Rightarrow> int list \<Rightarrow> int tensor \<Rightarrow> error + int tensor" where
  "BSGen source rng_seq rng_idx =
     (if rng_seq = [] then Inl IndexError else tzip (bs_bit rng_seq) source rng_idx)"

text \<open>
  \<open>m_source_gen\<close> is the value of \<^verbatim>\<open>SourceGen(input_prob_1, bitwidth, mode, rtype)()\<close>
  and \<open>m_rng\<close> that of \<^verbatim>\<open>RNG(bitwidth, 1, "Sobol", rtype)()\<close>; neither is part of these
  sources, both are parameters of the constructor. The two generators \<^verbatim>\<open>self.bs\<close> and
  \<^verbatim>\<open>self.bs_inv\<close> are built from the same source and sequence. A bit input is held as
  an integer tensor; \<^verbatim>\<open>.type(torch.int8)\<close> and \<^verbatim>\<open>.type(torch.long)\<close> leave its values
  as they are.
\<close>

record FSUMul =
  m_bitwidth :: nat
  m_mode :: string
  m_static :: bool
  m_source_gen :: "real tensor"
  m_rng :: "int list"
  m_rng_idx :: "int tensor"
  m_rng_idx_inv :: "int tensor option"

definition FSUMul_init ::
  "nat \<Rightarrow> string \<Rightarrow> bool \<Rightarrow> real tensor \<Rightarrow> int list \<Rightarrow> error + FSUMul" where
  "FSUMul_init bw m static source rng_seq =
     (if static = True then
        Inr \<lparr>m_bitwidth = bw, m_mode = m, m_static = static, m_source_gen = source,
             m_rng = rng_seq, m_rng_idx = tfull [1] 0,
             m_rng_idx_inv = (if m = ''bipolar'' then Some (tfull [1] 0) else None)\<rparr>
      else Inl ValueError)"

text \<open>When \<open>static\<close> is not True the Python method falls off its end and returns None,
  on which \<^verbatim>\<open>forward\<close> then fails to call \<^verbatim>\<open>.type\<close>.\<close>

definition FSUMul_forward :: "FSUMul \<Rightarrow> int tensor \<Rightarrow> error + (int tensor \<times> FSUMul)" where
  "FSUMul_forward st input_0 =
     (if m_static st = True then
        ebind (BSGen (m_source_gen st) (m_rng st) (m_rng_idx st)) (\<lambda>bit.
        ebind (tzip (AND) input_0 bit) (\<lambda>path_0.
        ebind (tzip (+) (m_rng_idx st) input_0) (\<lambda>idx'.
          let st1 = st\<lparr>m_rng_idx := idx'\<rparr> in
          if m_mode st1 = ''unipolar'' then Inr (path_0, st1)
          else if m_mode st1 = ''bipolar'' then
            ebind (of_option AttributeError (m_rng_idx_inv st1)) (\<lambda>idx_inv.
            ebind (BSGen (m_source_gen st1) (m_rng st1) idx_inv) (\<lambda>bit_inv.
            ebind (tzip (AND) (tmap (\<lambda>x. 1 - x) input_0) (tmap (\<lambda>b. 1 - b) bit_inv)) (\<lambda>path_1.
            ebind (tzip (+) idx_inv (tmap (\<lambda>x. 1 - x) input_0)) (\<lambda>idx_inv'.
            ebind (tzip (OR) path_0 path_1) (\<lambda>out.
              Inr (out, st1\<lparr>m_rng_idx_inv := Some idx_inv'\<rparr>))))))
          else Inl ValueError)))
      else Inl AttributeError)"

fun FSUMul_run :: "FSUMul \<Rightarrow> int tensor list \<Rightarrow> error + (int tensor list \<times> FSUMul)" where
  "FSUMul_run st [] = Inr ([], st)"
| "FSUMul_run st (x # xs) =
     ebind (FSUMul_forward st x) (\<lambda>(out, st').
       ebind (FSUMul_run st' xs) (\<lambda>(outs, st''). Inr (out # outs, st'')))"

definition GainesMul_forward :: "string \<Rightarrow> int tensor \<Rightarrow> int tensor \<Rightarrow> error + int tensor" where
  "GainesMul_forward m input_0 input_1 =
     (if m = ''unipolar'' then tzip (AND) input_0 input_1
      else if m = ''bipolar'' then
        ebind (tzip (XOR) input_0 input_1) (\<lambda>x. Inr (tmap (\<lambda>v. 1 - v) x))
      else Inl ValueError)"

section \<open>sw/kernel/relu.py: UnaryReLU\<close>

text \<open>
  Modelled from the spec: the shift register \<^verbatim>\<open>ShiftReg\<close> (UnarySim.sw.kernel.shiftreg)
  is not among the sources. The spec (3, 4.5): a fixed-capacity ring buffer of the last
  \<open>depth\<close> emitted output bits plus a running population count, created with zero initial
  values; a call pushes the output into the ring buffer, evicting the oldest bit, and
  updates the population count accordingly, which always equals the number of 1s held
  in the buffer. The newest bit leads the buffer. A register built for one lane is
  broadcast to the lanes of the first larger input. The call returns the evicted bits
  and the population counts.
\<close>

record ShiftReg =
  sr_depth :: nat
  sr_buf :: "int list tensor"

definition ShiftReg_init :: "nat \<Rightarrow> ShiftReg" where
  "ShiftReg_init depth = \<lparr>sr_depth = depth, sr_buf = tfull [1] (replicate depth 0)\<rparr>"

definition ShiftReg_forward ::
  "ShiftReg \<Rightarrow> int tensor \<Rightarrow> error + ((int tensor \<times> int tensor) \<times> ShiftReg)" where
  "ShiftReg_forward sr x =
     ebind (tzip (\<lambda>buf v. take (sr_depth sr) (v # buf)) (sr_buf sr) x) (\<lambda>buf'.
     ebind (tzip (\<lambda>buf v. last (v # buf)) (sr_buf sr) x) (\<lambda>evicted.
       Inr ((evicted, tmap sum_list buf'), sr\<lparr>sr_buf := buf'\<rparr>)))"

text \<open>\<^verbatim>\<open>2**e\<close> for a Python integer \<open>e\<close>: a float below 1 when \<open>e\<close> is negative.\<close>

definition py_pow2 :: "int \<Rightarrow> real" where
  "py_pow2 e = (if 0 \<le> e then 2 ^ nat e else 1 / 2 ^ nat (- e))"

text \<open>
  The attributes that the constructor creates only under \<^verbatim>\<open>shiftreg is True\<close>, only for
  "RC" or only for "TC" are fields of one record; a field the configuration does not
  create is held at zero and no method that the configuration dispatches to reads it.
  The one-element parameters \<^verbatim>\<open>depth_half\<close>, \<^verbatim>\<open>buf_max\<close>, \<^verbatim>\<open>buf_half\<close>, \<^verbatim>\<open>threshold\<close> and
  \<^verbatim>\<open>cycle\<close> are never reshaped and are scalars here.
\<close>

record UnaryReLU =
  r_depth :: int
  r_encode :: string
  r_sr :: bool
  r_shiftreg :: ShiftReg
  r_depth_half :: real
  r_sr_cnt :: "int tensor"
  r_init :: bool
  r_buf_max :: real
  r_buf_half :: real
  r_acc :: "real tensor"
  r_threshold :: real
  r_cycle :: real

definition UnaryReLU_init :: "int \<Rightarrow> int \<Rightarrow> string \<Rightarrow> bool \<Rightarrow> error + UnaryReLU" where
  "UnaryReLU_init depth bitwidth encode shiftreg =
     (let st0 = \<lparr>r_depth = depth, r_encode = encode, r_sr = shiftreg,
                 r_shiftreg = ShiftReg_init 0, r_depth_half = 0, r_sr_cnt = tfull [1] 0,
                 r_init = False, r_buf_max = 0, r_buf_half = 0, r_acc = tfull [1] 0,
                 r_threshold = 0, r_cycle = 0\<rparr>
      in ebind (if shiftreg = True then
                  (if \<not> depth \<le> 127 then Inl AssertionError
                   else Inr (st0\<lparr>r_shiftreg := ShiftReg_init (nat depth),
                                 r_depth_half := real_of_int depth / 2,
                                 r_sr_cnt := tfull [1] 0,
                                 r_init := True\<rparr>))
                else Inr st0) (\<lambda>st1.
           if encode = ''RC'' then
             Inr (st1\<lparr>r_buf_max := py_pow2 depth - 1,
                      r_buf_half := py_pow2 (depth - 1),
                      r_acc := tfull [1] (py_pow2 (depth - 1))\<rparr>)
           else if encode = ''TC'' then
             Inr (st1\<lparr>r_threshold := py_pow2 (bitwidth - 1),
                      r_acc := tfull [1] 0,
                      r_cycle := 0\<rparr>)
           else Inl ValueError))"

text \<open>The buffers \<^verbatim>\<open>acc\<close> and \<^verbatim>\<open>cycle\<close> have the type \<^verbatim>\<open>btype\<close>, float32 unless the caller
  chooses another; the additions on them are float32 additions.\<close>

definition UnaryReLU_forward_rc :: "UnaryReLU \<Rightarrow> int tensor \<Rightarrow> error + (int tensor \<times> UnaryReLU)" where
  "UnaryReLU_forward_rc st input =
     (let half_prob_flag = tmap (\<lambda>a. if a \<ge> r_buf_half st then (1::int) else 0) (r_acc st)
      in ebind (tzip (OR) input (tmap (\<lambda>f. 1 - f) half_prob_flag)) (\<lambda>output.
         ebind (tzip (\<lambda>a v. f32 (a + v)) (r_acc st)
                  (tmap (\<lambda>out. f32 (real_of_int (out * 2 - 1))) output)) (\<lambda>acc'.
           Inr (output, st\<lparr>r_acc := tmap (\<lambda>a. min (max a 0) (r_buf_max st)) acc'\<rparr>))))"

definition UnaryReLU_forward_rc_sr :: "UnaryReLU \<Rightarrow> int tensor \<Rightarrow> error + (int tensor \<times> UnaryReLU)" where
  "UnaryReLU_forward_rc_sr st input =
     ebind (if r_init st = True then Inr (tmap (\<lambda>x. 1) input, st\<lparr>r_init := False\<rparr>)
            else ebind (tzip (OR)
                          (tmap (\<lambda>c. if real_of_int c < r_depth_half st then (1::int) else 0)
                                (r_sr_cnt st))
                          input) (\<lambda>output. Inr (output, st))) (\<lambda>(output, st1).
       ebind (ShiftReg_forward (r_shiftreg st1) output) (\<lambda>((evicted, cnt), sr').
         Inr (output, st1\<lparr>r_shiftreg := sr', r_sr_cnt := cnt\<rparr>)))"

text \<open>The expression of the last statement of \<^verbatim>\<open>UnaryReLU_forward_tc\<close>, on the values
  of \<^verbatim>\<open>self.cycle\<close>, \<^verbatim>\<open>self.threshold\<close>, one element of \<^verbatim>\<open>self.acc\<close> and one of the input.
  The two flags are 0 or 1, so one of the two summands is 0 and the other is 1, 0 or the
  float32 copy of the input, a whole number: neither the products nor the sum round.\<close>

definition tc_output :: "real \<Rightarrow> real \<Rightarrow> real \<Rightarrow> int \<Rightarrow> int" where
  "tc_output cycle threshold acc x =
     (let half_cycle_flag = (if cycle > threshold then (1::int) else 0);
          half_prob_flag = (if acc > threshold then (1::int) else 0)
      in (1 - half_cycle_flag) * (if cycle \<ge> acc then 1 else 0)
         + half_cycle_flag * half_prob_flag * \<lfloor>f32 (real_of_int x)\<rfloor>)"

definition UnaryReLU_forward_tc :: "UnaryReLU \<Rightarrow> int tensor \<Rightarrow> error + (int tensor \<times> UnaryReLU)" where
  "UnaryReLU_forward_tc st input =
     (let st1 = st\<lparr>r_cycle := f32 (r_cycle st + 1)\<rparr>
      in ebind (tzip (\<lambda>a x. f32 (a + f32 (real_of_int x))) (r_acc st1) input) (\<lambda>acc'.
           let st2 = st1\<lparr>r_acc := acc'\<rparr>
           in ebind (tzip (tc_output (r_cycle st2) (r_threshold st2)) (r_acc st2) input) (\<lambda>output.
                Inr (output, st2))))"

text \<open>For an \<open>encode\<close> other than "RC" and "TC", which the constructor refuses, the
  Python method returns None.\<close>

definition UnaryReLU_forward ::
  "UnaryReLU \<Rightarrow> int tensor \<Rightarrow> error + (int tensor option \<times> UnaryReLU)" where
  "UnaryReLU_forward st input =
     (if r_encode st = ''RC'' then
        (if r_sr st = False
         then ebind (UnaryReLU_forward_rc st input) (\<lambda>(out, st'). Inr (Some out, st'))
         else ebind (UnaryReLU_forward_rc_sr st input) (\<lambda>(out, st'). Inr (Some out, st')))
      else if r_encode st = ''TC'' then
        ebind (UnaryReLU_forward_tc st input) (\<lambda>(out, st'). Inr (Some out, st'))
      else Inr (None, st))"

section \<open>sw/kernel/linear.py: UnaryLinear\<close>

text \<open>\<^verbatim>\<open>torch.nn.functional.linear(x, w, b)\<close>: every row of \<open>x\<close> times the transpose
  of the two-dimensional \<open>w\<close>, plus the bias if there is one.\<close>

definition tlinear :: "real tensor \<Rightarrow> real tensor \<Rightarrow> real tensor option \<Rightarrow> error + real tensor" where
  "tlinear x w b =
     (if length (shape w) \<noteq> 2 \<or> shape x = [] \<or> last (shape x) \<noteq> shape w ! 1
      then Inl RuntimeError
      else
        let y = \<lparr>shape = butlast (shape x) @ [shape w ! 0],
                 elem = (\<lambda>idx. sum_list (map (\<lambda>k. elem x (butlast idx @ [k]) * elem w [last idx, k])
                                            [0..<shape w ! 1]))\<rparr>
        in (case b of None \<Rightarrow> Inr y | Some bias \<Rightarrow> tzip_inplace (+) y bias))"

text \<open>The layer \<^verbatim>\<open>torch.nn.Linear\<close> works on float32 tensors; like the reduction
  \<open>tsum_f32\<close>, each of its dot products with the bias is rounded once.\<close>

definition tlinear_f32 ::
  "real tensor \<Rightarrow> real tensor \<Rightarrow> real tensor option \<Rightarrow> error + real tensor" where
  "tlinear_f32 x w b = ebind (tlinear x w b) (\<lambda>y. Inr (tmap f32 y))"

text \<open>
  \<open>l_buf_wght\<close> and \<open>l_buf_bias\<close> are the values of \<^verbatim>\<open>SourceGen(binary_weight, ...)()\<close> and
  \<^verbatim>\<open>SourceGen(binary_bias, ...)()\<close>, \<open>l_rng\<close> that of \<^verbatim>\<open>RNG(bitwidth, 1, "Sobol")()\<close>; they
  are parameters of the constructor. The one-element parameters \<^verbatim>\<open>acc_bound\<close> and
  \<^verbatim>\<open>offset\<close> are scalars; they are float32 values, built by \<^verbatim>\<open>add_\<close> from zero, and
  \<^verbatim>\<open>(in_features-1)/2\<close> and \<^verbatim>\<open>1/2\<close> are Python doubles.
\<close>

record UnaryLinear =
  l_in_features :: nat
  l_out_features :: nat
  l_acc_bound :: real
  l_mode :: string
  l_scaled :: bool
  l_offset :: real
  l_has_bias :: bool
  l_rng :: "int list"
  l_buf_wght :: "real tensor"
  l_buf_bias :: "real tensor"
  l_rng_wght_idx :: "int tensor"
  l_rng_bias_idx :: "int tensor"
  l_rng_wght_idx_inv :: "int tensor"
  l_accumulator :: "real tensor"
  l_out_accumulator :: "real tensor option"

definition UnaryLinear_init ::
  "nat \<Rightarrow> nat \<Rightarrow> real tensor \<Rightarrow> real tensor \<Rightarrow> int list \<Rightarrow> bool \<Rightarrow> string \<Rightarrow> bool
     \<Rightarrow> error + UnaryLinear" where
  "UnaryLinear_init in_features out_features buf_wght buf_bias rng_seq bias m s =
     (if m = ''unipolar'' \<or> m = ''bipolar'' then
        Inr \<lparr>l_in_features = in_features, l_out_features = out_features,
             l_acc_bound = (let b = f32 (0 + real in_features)
                            in if bias = True then f32 (b + 1) else b),
             l_mode = m, l_scaled = s,
             l_offset = (if m = ''unipolar'' then 0
                         else let off = f32 (0 + f32 (f64 ((real in_features - 1) / 2)))
                              in if bias = True then f32 (off + f32 (f64 (1 / 2))) else off),
             l_has_bias = bias, l_rng = rng_seq,
             l_buf_wght = buf_wght, l_buf_bias = buf_bias,
             l_rng_wght_idx = tfull [out_features, in_features] 0,
             l_rng_bias_idx = tfull [out_features] 0,
             l_rng_wght_idx_inv = tfull [out_features, in_features] 0,
             l_accumulator = tfull [1] 0,
             l_out_accumulator = (if s = False then Some (tfull [1] 0) else None)\<rparr>
      else Inl ValueError)"

text \<open>For a mode other than the two that the constructor admits the Python method
  returns None, which \<^verbatim>\<open>forward\<close> then fails to add to the accumulator.\<close>

definition UnaryKernel_accumulation ::
  "UnaryLinear \<Rightarrow> int tensor \<Rightarrow> error + (real tensor \<times> UnaryLinear)" where
  "UnaryKernel_accumulation st input =
     ebind (BSGen (l_buf_wght st) (l_rng st) (l_rng_wght_idx st)) (\<lambda>weight.
     ebind (tzip_inplace (+) (l_rng_wght_idx st) input) (\<lambda>widx.
       let st1 = st\<lparr>l_rng_wght_idx := widx\<rparr> in
       ebind (if l_has_bias st1 = True
              then ebind (BSGen (l_buf_bias st1) (l_rng st1) (l_rng_bias_idx st1)) (\<lambda>b.
                     Inr (Some (tmap (\<lambda>v. f32 (real_of_int v)) b),
                          st1\<lparr>l_rng_bias_idx := tmap (\<lambda>i. i + 1) (l_rng_bias_idx st1)\<rparr>))
              else Inr (None, st1)) (\<lambda>(bias, st2).
       ebind (tlinear_f32 (tmap (\<lambda>x. f32 (real_of_int x)) input)
                          (tmap (\<lambda>v. f32 (real_of_int v)) weight) bias) (\<lambda>kernel_out.
         if l_mode st2 = ''unipolar'' then Inr (kernel_out, st2)
         else if l_mode st2 = ''bipolar'' then
           ebind (BSGen (l_buf_wght st2) (l_rng st2) (l_rng_wght_idx_inv st2)) (\<lambda>weight_inv.
           ebind (tzip_inplace (+) (l_rng_wght_idx_inv st2) (tmap (\<lambda>x. 1 - x) input)) (\<lambda>iidx.
           ebind (tlinear_f32 (tmap (\<lambda>x. f32 (1 - f32 (real_of_int x))) input)
                              (tmap (\<lambda>v. f32 (1 - f32 (real_of_int v))) weight_inv) None)
                 (\<lambda>kernel_out_inv.
           ebind (tzip (\<lambda>a b. f32 (a + b)) kernel_out kernel_out_inv) (\<lambda>total.
             Inr (total, st2\<lparr>l_rng_wght_idx_inv := iidx\<rparr>)))))
         else Inl TypeError))))"

definition UnaryLinear_forward ::
  "UnaryLinear \<Rightarrow> int tensor \<Rightarrow> error + (real tensor \<times> UnaryLinear)" where
  "UnaryLinear_forward st input =
     ebind (UnaryKernel_accumulation st input) (\<lambda>(kernel_out_total, st1).
     ebind (tzip (\<lambda>a k. f32 (a + k)) (l_accumulator st1) kernel_out_total) (\<lambda>acc.
       let st2 = st1\<lparr>l_accumulator := acc\<rparr> in
       if l_scaled st2 = True then
         let output = tmap (\<lambda>a. if a \<ge> l_acc_bound st2 then 1 else 0) (l_accumulator st2)
         in ebind (tzip_inplace (\<lambda>a b. f32 (a - b)) (l_accumulator st2)
                     (tmap (\<lambda>out. f32 (out * l_acc_bound st2)) output)) (\<lambda>acc'.
              Inr (output, st2\<lparr>l_accumulator := acc'\<rparr>))
       else
         let st3 = st2\<lparr>l_accumulator := tmap (\<lambda>a. f32 (a - l_offset st2)) (l_accumulator st2)\<rparr>
         in ebind (of_option AttributeError (l_out_accumulator st3)) (\<lambda>oacc.
              ebind (tzip (\<lambda>a b. if a > b then 1 else 0) (l_accumulator st3) oacc) (\<lambda>output.
                ebind (tzip (\<lambda>a b. f32 (a + b)) oacc output) (\<lambda>oacc'.
                  Inr (output, st3\<lparr>l_out_accumulator := Some oacc'\<rparr>))))))"

section \<open>kernel/linear.py: FXPLinear, the constructor\<close>

datatype bitwidth_arg = BwInt int | BwTuple int int

text \<open>Python's \<^verbatim>\<open>int(x)\<close> on a float: truncation towards zero.\<close>

definition py_int :: "real \<Rightarrow> int" where
  "py_int x = (if 0 \<le> x then \<lfloor>x\<rfloor> else \<lceil>x\<rceil>)"

text \<open>The weight and the bias, which the constructor takes over from
  \<^verbatim>\<open>torch.nn.Linear\<close> or from its arguments, play no part in what follows and are left out.\<close>

record FXPLinear =
  fx_bw_input :: int
  fx_bw_wght :: int
  fx_max_abs_input :: real
  fx_max_abs_wght :: real
  fx_rounding :: string

definition FXPLinear_init :: "bitwidth_arg \<Rightarrow> string \<Rightarrow> string \<Rightarrow> string \<Rightarrow> error + FXPLinear" where
  "FXPLinear_init bitwidth keep_res more_res rounding =
     ebind (case bitwidth of
              BwTuple b0 b1 \<Rightarrow> Inr (b0 - 1, b1 - 1)
            | BwInt bw \<Rightarrow>
                (if keep_res = ''input'' then Inr (bw - 1, bw - 1)
                 else if keep_res = ''output'' then
                   (if bw mod 2 = 0
                    then Inr (py_int (real_of_int bw / 2 - 1), py_int (real_of_int bw / 2 - 1))
                    else if more_res = ''input''
                    then Inr (py_int (real_of_int (bw + 1) / 2 - 1),
                              py_int (real_of_int (bw - 1) / 2 - 1))
                    else if more_res = ''weight''
                    then Inr (py_int (real_of_int (bw - 1) / 2 - 1),
                              py_int (real_of_int (bw + 1) / 2 - 1))
                    else Inl ValueError)
                 else Inl ValueError)) (\<lambda>(bi, bw).
       Inr \<lparr>fx_bw_input = bi, fx_bw_wght = bw,
            fx_max_abs_input = py_pow2 bi, fx_max_abs_wght = py_pow2 bw,
            fx_rounding = rounding\<rparr>)"

section \<open>kernel/linear.py: FSULinearPC\<close>

text \<open>Python values as far as the constructor's test of the rng kind needs them: \<^verbatim>\<open>a or b\<close>
  is \<open>a\<close> when \<open>a\<close> is truthy and \<open>b\<close> otherwise; a string is truthy unless it is empty.\<close>

datatype pyval = PyBool bool | PyStr string

definition py_truthy :: "pyval \<Rightarrow> bool" where
  "py_truthy v = (case v of PyBool b \<Rightarrow> b | PyStr s \<Rightarrow> s \<noteq> [])"

definition py_or :: "pyval \<Rightarrow> pyval \<Rightarrow> pyval" where
  "py_or a b = (if py_truthy a then a else b)"

text \<open>\<^verbatim>\<open>str.lower()\<close> on ASCII text.\<close>

definition lower_char :: "char \<Rightarrow> char" where
  "lower_char c =
     (let n = (of_char c :: nat) in if 65 \<le> n \<and> n \<le> 90 then char_of (n + 32) else c)"

definition py_lower :: "string \<Rightarrow> string" where
  "py_lower s = map lower_char s"

text \<open>\<^verbatim>\<open>torch.cat(n*[t], 0)\<close>: \<open>n\<close> copies of \<open>t\<close> along its first dimension.\<close>

definition ttile :: "nat \<Rightarrow> 'a tensor \<Rightarrow> error + 'a tensor" where
  "ttile n t =
     (if n = 0 \<or> shape t = [] then Inl RuntimeError
      else Inr \<lparr>shape = (n * hd (shape t)) # tl (shape t),
                elem = (\<lambda>idx. elem t ((hd idx mod hd (shape t)) # tl idx))\<rparr>)"

text \<open>\<^verbatim>\<open>t.unsqueeze(1)\<close>: a new dimension of size 1 after the first.\<close>

definition unsqueeze1 :: "'a tensor \<Rightarrow> error + 'a tensor" where
  "unsqueeze1 t =
     (if shape t = [] then Inl IndexError
      else Inr \<lparr>shape = insert_at 1 1 (shape t), elem = (\<lambda>idx. elem t (drop_at 1 idx))\<rparr>)"

text \<open>
  \<^verbatim>\<open>torch.matmul(x.unsqueeze(1), w.transpose(1, 2)).squeeze_(1)\<close> for the input \<open>x\<close> of
  shape [batch, in] and the weight bits \<open>w\<close> of shape [B, out, in]: the batch dimensions
  broadcast, the result has the shape [batch, out]. The input of this layer is the
  two-dimensional tensor its comments require ("first dim should always be batch"); an
  input of another rank is outside this model.
\<close>

definition pc_matmul :: "real tensor \<Rightarrow> real tensor \<Rightarrow> error + real tensor" where
  "pc_matmul x w =
     (if length (shape x) \<noteq> 2 \<or> length (shape w) \<noteq> 3 \<or> shape x ! 1 \<noteq> shape w ! 2
      then Inl RuntimeError
      else ebind (of_option RuntimeError (bshape [shape x ! 0] [shape w ! 0])) (\<lambda>bsh.
        Inr \<lparr>shape = [hd bsh, shape w ! 1],
             elem = (\<lambda>idx. sum_list (map (\<lambda>k. elem x [if shape x ! 0 = 1 then 0 else idx ! 0, k]
                                              * elem w [if shape w ! 0 = 1 then 0 else idx ! 0,
                                                        idx ! 1, k])
                                        [0..<shape x ! 1]))\<rparr>))"

text \<open>
  The weight and the bias that \<^verbatim>\<open>torch.nn.Linear\<close> creates (\<open>weight0\<close>, \<open>bias0\<close>), the
  function \<^verbatim>\<open>BinGen(\<dots>)()\<close> (\<open>bingen\<close>) and the two index sequences \<^verbatim>\<open>RNG(\<dots>)()\<close> (\<open>wrng\<close>,
  \<open>brng\<close>) are not part of these sources and are parameters of the constructor. The
  message of each assertion of the constructor adds the module itself to a string, so a
  failed assertion surfaces as the TypeError of building its message. \<^verbatim>\<open>self.brng\<close> and
  \<^verbatim>\<open>self.wrdx_i0\<close> exist only under the conditions that create them.
\<close>

record FSULinearPC =
  pc_mode :: string
  pc_wtc :: bool
  pc_has_bias :: bool
  pc_weight :: "real tensor"
  pc_bias :: "real tensor"
  pc_wrng :: "int list"
  pc_brng :: "int list option"
  pc_wrdx_i1 :: "int tensor"
  pc_brdx :: "int tensor"
  pc_wrdx_i0 :: "int tensor option"

definition FSULinearPC_init ::
  "nat \<Rightarrow> nat \<Rightarrow> bool \<Rightarrow> real tensor option \<Rightarrow> real tensor option \<Rightarrow> string \<Rightarrow> string
     \<Rightarrow> real tensor \<Rightarrow> real tensor \<Rightarrow> (real tensor \<Rightarrow> real tensor) \<Rightarrow> int list \<Rightarrow> int list
     \<Rightarrow> error + FSULinearPC" where
  "FSULinearPC_init in_features out_features bias weight_ext bias_ext hw_mode hw_rng
       weight0 bias0 bingen wrng brng =
     (let m = py_lower hw_mode in
      if \<not> (m = ''unipolar'' \<or> m = ''bipolar'') then Inl TypeError
      else
        let wtc = (if py_truthy (py_or (PyBool (py_lower hw_rng = ''race'')) (PyStr ''tc''))
                   then True else False)
        in ebind (case weight_ext of
                    None \<Rightarrow> Inr weight0
                  | Some w \<Rightarrow>
                      if length (shape w) < 2 then Inl IndexError
                      else if (shape w ! 0, shape w ! 1) = (out_features, in_features)
                      then Inr (bingen w) else Inl TypeError) (\<lambda>weight.
           ebind (case bias_ext of
                    None \<Rightarrow> Inr (bias0, None)
                  | Some b \<Rightarrow>
                      if \<not> bias then Inr (bias0, None)
                      else if shape b = [] then Inl IndexError
                      else if shape b ! 0 = out_features
                      then Inr (bingen b, Some brng) else Inl TypeError) (\<lambda>(bias_t, brng_opt).
             if bias = True \<and> brng_opt = None then Inl AttributeError
             else
               Inr \<lparr>pc_mode = m, pc_wtc = wtc, pc_has_bias = bias,
                    pc_weight = weight, pc_bias = bias_t,
                    pc_wrng = wrng, pc_brng = brng_opt,
                    pc_wrdx_i1 = tfull (1 # shape weight) 0,
                    pc_brdx = tfull (shape bias_t) 0,
                    pc_wrdx_i0 = (if m = ''bipolar'' \<and> wtc = False
                                  then Some (tfull (1 # shape weight) 0) else None)\<rparr>)))"

text \<open>The statements that the two policies share: the weight bits of the cycle at the
  counters \<open>wrdx\<close>, both repeated for the batch when their first dimension is not it.\<close>

definition pc_weight_bits ::
  "FSULinearPC \<Rightarrow> int tensor \<Rightarrow> nat \<Rightarrow> error + (int tensor \<times> int tensor)" where
  "pc_weight_bits st wrdx batch =
     ebind (BSGen (pc_weight st) (pc_wrng st) wrdx) (\<lambda>wbit.
       if shape wbit = [] then Inl IndexError
       else if shape wbit ! 0 \<noteq> batch
       then ebind (ttile batch wbit) (\<lambda>wbit'.
              ebind (ttile batch wrdx) (\<lambda>wrdx'. Inr (wbit', wrdx')))
       else Inr (wbit, wrdx))"

definition pc_add_bias :: "FSULinearPC \<Rightarrow> real tensor \<Rightarrow> error + (real tensor \<times> FSULinearPC)" where
  "pc_add_bias st out_i1 =
     (if pc_has_bias st = True then
        ebind (of_option AttributeError (pc_brng st)) (\<lambda>brng.
        ebind (BSGen (pc_bias st) brng (pc_brdx st)) (\<lambda>bbit.
          let st1 = st\<lparr>pc_brdx := tmap (\<lambda>i. i + 1) (pc_brdx st)\<rparr>
          in ebind (tzip_inplace (+) out_i1 (tmap real_of_int bbit)) (\<lambda>out. Inr (out, st1))))
      else Inr (out_i1, st))"

definition FSULinear_PC_wrc :: "FSULinearPC \<Rightarrow> int tensor \<Rightarrow> error + (real tensor option \<times> FSULinearPC)" where
  "FSULinear_PC_wrc st input =
     (if shape input = [] then Inl IndexError
      else
        let batch = shape input ! 0 in
        ebind (pc_weight_bits st (pc_wrdx_i1 st) batch) (\<lambda>(wbit_i1, wrdx_i1).
        ebind (unsqueeze1 input) (\<lambda>input_u.
        ebind (tzip (+) wrdx_i1 input_u) (\<lambda>wrdx_i1'.
          let st1 = st\<lparr>pc_wrdx_i1 := wrdx_i1'\<rparr> in
          ebind (pc_matmul (tmap real_of_int input) (tmap real_of_int wbit_i1)) (\<lambda>out_i1.
          ebind (pc_add_bias st1 out_i1) (\<lambda>(out_i1, st2).
            if pc_mode st2 = ''unipolar'' then Inr (Some out_i1, st2)
            else if pc_mode st2 = ''bipolar'' then
              ebind (of_option AttributeError (pc_wrdx_i0 st2)) (\<lambda>wrdx_i0.
              ebind (pc_weight_bits st2 wrdx_i0 batch) (\<lambda>(wbit, wrdx_i0).
                let wbit_i0 = tmap (\<lambda>b. 1 - real_of_int b) wbit in
                ebind (tzip (+) wrdx_i0 (tmap (\<lambda>x. 1 - x) input_u)) (\<lambda>wrdx_i0'.
                  let st3 = st2\<lparr>pc_wrdx_i0 := Some wrdx_i0'\<rparr> in
                  ebind (pc_matmul (tmap (\<lambda>x. 1 - real_of_int x) input) wbit_i0) (\<lambda>out_i0.
                  ebind (tzip (+) out_i1 out_i0) (\<lambda>out. Inr (Some out, st3))))))
            else Inr (None, st2)))))))"

definition FSULinear_PC_wtc :: "FSULinearPC \<Rightarrow> int tensor \<Rightarrow> error + (real tensor option \<times> FSULinearPC)" where
  "FSULinear_PC_wtc st input =
     (if shape input = [] then Inl IndexError
      else
        let batch = shape input ! 0 in
        ebind (pc_weight_bits st (pc_wrdx_i1 st) batch) (\<lambda>(wbit_i1, wrdx_i1).
        ebind (unsqueeze1 (tmap (\<lambda>x. 1) input)) (\<lambda>ones_u.
        ebind (tzip (+) wrdx_i1 ones_u) (\<lambda>wrdx_i1'.
          let st1 = st\<lparr>pc_wrdx_i1 := wrdx_i1'\<rparr> in
          ebind (pc_matmul (tmap real_of_int input) (tmap real_of_int wbit_i1)) (\<lambda>out_i1.
          ebind (pc_add_bias st1 out_i1) (\<lambda>(out_i1, st2).
            if pc_mode st2 = ''unipolar'' then Inr (Some out_i1, st2)
            else if pc_mode st2 = ''bipolar'' then
              let wbit_i0 = tmap (\<lambda>b. 1 - real_of_int b) wbit_i1 in
              ebind (pc_matmul (tmap (\<lambda>x. 1 - real_of_int x) input) wbit_i0) (\<lambda>out_i0.
              ebind (tzip (+) out_i1 out_i0) (\<lambda>out. Inr (Some out, st2)))
            else Inr (None, st2)))))))"

text \<open>\<^verbatim>\<open>forward\<close> converts the result of the policy with \<^verbatim>\<open>.type\<close>, which None lacks.\<close>

definition FSULinearPC_forward :: "FSULinearPC \<Rightarrow> int tensor \<Rightarrow> error + (real tensor \<times> FSULinearPC)" where
  "FSULinearPC_forward st input =
     ebind (if pc_wtc st then FSULinear_PC_wtc st input else FSULinear_PC_wrc st input)
       (\<lambda>(r, st'). ebind (of_option AttributeError r) (\<lambda>out. Inr (out, st')))"

section \<open>Properties: construction\<close>

lemma ebind_Inl: "ebind (Inl e) f = Inl e"
  by (simp add: ebind_def)

lemma ebind_Inr: "ebind (Inr x) f = f x"
  by (simp add: ebind_def)

lemma ebind_eq_Inr: "ebind m f = Inr y \<longleftrightarrow> (\<exists>x. m = Inr x \<and> f x = Inr y)"
  by (cases m) (simp_all add: ebind_def)

text \<open>
  Claim C7. The unsupported configurations are refused by the constructors themselves,
  so that no instance exists on which a forward call could run: GainesAdd with mode
  "bipolar" and \<open>scaled = False\<close>; FSUMul with \<open>static = False\<close>; UnaryReLU with
  \<open>shiftreg = True\<close> and a depth above 127; FXPLinear with \<open>keep_res = "output"\<close>, an odd
  bitwidth that is not a tuple, and a \<open>more_res\<close> that is neither "input" nor "weight".
\<close>

theorem configuration_errors_at_construction:
  "GainesAdd_init ''bipolar'' False acc_dim_arg rng_seq = Inl ValueError
   \<and> FSUMul_init bw m False source rng_seq' = Inl ValueError
   \<and> (127 < depth \<longrightarrow> UnaryReLU_init depth bitwidth encode True = Inl AssertionError)
   \<and> (b mod 2 \<noteq> 0 \<and> more_res \<noteq> ''input'' \<and> more_res \<noteq> ''weight''
        \<longrightarrow> FXPLinear_init (BwInt b) ''output'' more_res rounding = Inl ValueError)"
  by (simp add: GainesAdd_init_def FSUMul_init_def UnaryReLU_init_def FXPLinear_init_def
        ebind_Inl)

theorem configuration_errors_at_construction_witness:
  "GainesAdd_init ''bipolar'' False 0 [0, 2, 1, 3] = Inl ValueError
   \<and> FSUMul_init 2 ''bipolar'' False (tfull [1] 2) [0, 2, 1, 3] = Inl ValueError
   \<and> (127::int) < 128 \<and> UnaryReLU_init 128 8 ''RC'' True = Inl AssertionError
   \<and> (7::int) mod 2 \<noteq> 0 \<and> ''both'' \<noteq> ''input'' \<and> ''both'' \<noteq> ''weight''
   \<and> FXPLinear_init (BwInt 7) ''output'' ''both'' ''round'' = Inl ValueError"
  using configuration_errors_at_construction
    [of 0 "[0, 2, 1, 3]" 2 "''bipolar''" "tfull [1] 2" "[0, 2, 1, 3]" 128 8 "''RC''" 7
        "''both''" "''round''"]
  by simp

section \<open>Properties: broadcasting\<close>

lemma bshape_rev_same: "bshape_rev s s = Some s"
  by (induction s) auto

lemma bshape_same: "bshape s s = Some s"
  by (simp add: bshape_def bshape_rev_same)

lemma bshape_rev_Nil2: "bshape_rev s [] = Some s"
  by (cases s) auto

lemma bshape_Nil2: "bshape s [] = Some s"
  by (simp add: bshape_def bshape_rev_Nil2)

lemma bshape_Nil1: "bshape [] s = Some s"
  by (simp add: bshape_def)

lemma bshape_one1: "s \<noteq> [] \<Longrightarrow> bshape [1] s = Some s"
proof -
  assume "s \<noteq> []"
  then obtain y ys where r: "rev s = y # ys" by (cases "rev s") auto
  then show ?thesis by (auto simp: bshape_def dest: arg_cong[where f=rev])
qed

lemma bshape_one2: "s \<noteq> [] \<Longrightarrow> bshape s [1] = Some s"
proof -
  assume "s \<noteq> []"
  then obtain y ys where r: "rev s = y # ys" by (cases "rev s") auto
  then show ?thesis by (auto simp: bshape_def bshape_rev_Nil2 dest: arg_cong[where f=rev])
qed

lemma bidx_valid: "valid_idx s idx \<Longrightarrow> bidx s idx = idx"
proof -
  assume v: "valid_idx s idx"
  then have l: "length idx = length s" by (simp add: valid_idx_def list_all2_lengthD)
  have "map2 (\<lambda>n i. if n = 1 then 0 else i) s idx = idx"
    using v unfolding valid_idx_def
    by (induction idx s rule: list_all2_induct) auto
  then show ?thesis by (simp add: bidx_def l)
qed

lemma bidx_Nil: "bidx [] idx = []"
  by (simp add: bidx_def)

lemma bidx_one: "idx \<noteq> [] \<Longrightarrow> bidx [1] idx = [0]"
proof -
  assume "idx \<noteq> []"
  then have "drop (length idx - 1) idx = [last idx]"
    by (metis append_butlast_last_id append_eq_conv_conj length_butlast)
  then show ?thesis by (simp add: bidx_def)
qed

lemma valid_idx_insert_at:
  "d < length S \<Longrightarrow> valid_idx (drop_at d S) idx \<Longrightarrow> k < S ! d \<Longrightarrow> valid_idx S (insert_at d k idx)"
proof -
  assume d: "d < length S" and v: "valid_idx (drop_at d S) idx" and k: "k < S ! d"
  have S: "S = take d S @ (S ! d) # drop (Suc d) S" using d by (simp add: id_take_nth_drop)
  from v have l: "length idx = length S - 1" using d
    by (auto simp: valid_idx_def drop_at_def dest!: list_all2_lengthD)
  from v have "list_all2 (<) (take d idx @ drop d idx) (take d S @ drop (Suc d) S)"
    by (simp add: valid_idx_def drop_at_def)
  from v have v': "list_all2 (<) idx (take d S @ drop (Suc d) S)"
    by (simp add: valid_idx_def drop_at_def)
  have a: "list_all2 (<) (take d idx) (take d S)"
    using list_all2_takeI[OF v', of d] d by simp
  have b: "list_all2 (<) (drop d idx) (drop (Suc d) S)"
    using list_all2_dropI[OF v', of d] d by simp
  have "list_all2 (<) (take d idx @ k # drop d idx) (take d S @ (S ! d) # drop (Suc d) S)"
    using a b k by (auto intro!: list_all2_appendI)
  then show ?thesis using S by (simp add: valid_idx_def insert_at_def)
qed



lemma bshape_rev_length:
  "bshape_rev ra rb = Some rs \<Longrightarrow> length rs = max (length ra) (length rb)"
  by (induction ra rb arbitrary: rs rule: bshape_rev.induct) (auto split: if_splits)

lemma map2_zero_valid:
  "list_all2 (<) ri ys \<Longrightarrow>
     list_all2 (<) (map2 (\<lambda>n i. if n = 1 then 0 else i) ys ri) (ys :: nat list)"
  by (induction ri ys rule: list_all2_induct) auto

lemma bshape_rev_valid:
  "bshape_rev ra rb = Some rs \<Longrightarrow> list_all2 (<) ri rs \<Longrightarrow>
     list_all2 (<) (map2 (\<lambda>n i. if n = 1 then 0 else i) ra ri) ra
     \<and> list_all2 (<) (map2 (\<lambda>n i. if n = 1 then 0 else i) rb ri) rb"
proof (induction ra rb arbitrary: rs ri rule: bshape_rev.induct)
  case (1 ys)
  then show ?case using map2_zero_valid[of ri ys] by simp
next
  case (2 x xs)
  then show ?case using map2_zero_valid[of ri "x # xs"] by simp
next
  case (3 x xs y ys)
  from "3.prems" obtain rs' where rs': "bshape_rev xs ys = Some rs'"
    and r: "rs = (if x = y \<or> y = 1 then x else y) # rs'"
    and c: "x = y \<or> y = 1 \<or> x = 1"
    by (auto split: if_splits)
  from "3.prems"(2) r obtain i ri' where ri: "ri = i # ri'"
    and i: "i < (if x = y \<or> y = 1 then x else y)" and ri': "list_all2 (<) ri' rs'"
    by (auto simp: list_all2_Cons2)
  have ih: "list_all2 (<) (map2 (\<lambda>n i. if n = 1 then 0 else i) xs ri') xs
     \<and> list_all2 (<) (map2 (\<lambda>n i. if n = 1 then 0 else i) ys ri') ys"
  proof (cases "x = y \<or> y = 1")
    case True
    then show ?thesis using "3.IH"(1)[OF True rs' ri'] by simp
  next
    case False
    then have "x = 1" using c by simp
    then show ?thesis using "3.IH"(2)[OF False _ rs' ri'] by simp
  qed
  show ?case using ih i c by (auto simp: ri)
qed

lemma bshape_rev_idem:
  "bshape_rev ra rb = Some rs \<Longrightarrow> bshape_rev rs ra = Some rs \<and> bshape_rev rs rb = Some rs"
proof (induction ra rb arbitrary: rs rule: bshape_rev.induct)
  case (1 ys)
  then show ?case by (cases ys) (auto simp: bshape_rev_same)
next
  case (2 x xs)
  then show ?case by (auto simp: bshape_rev_same)
next
  case (3 x xs y ys)
  show ?case
  proof (cases "x = y \<or> y = 1")
    case True
    with "3.prems" obtain rs' where rs': "bshape_rev xs ys = Some rs'" and r: "rs = x # rs'"
      by auto
    from "3.IH"(1)[OF True rs'] show ?thesis using True r by simp
  next
    case False
    with "3.prems" have x: "x = 1" by (simp split: if_splits)
    with False "3.prems" obtain rs' where rs': "bshape_rev xs ys = Some rs'" and r: "rs = y # rs'"
      by auto
    from "3.IH"(2)[OF False x rs'] show ?thesis using False x r by simp
  qed
qed

lemma rev_bidx:
  "length sh \<le> length idx \<Longrightarrow>
     rev (bidx sh idx) = map2 (\<lambda>n i. if n = 1 then 0 else i) (rev sh) (rev idx)"
proof -
  assume l: "length sh \<le> length idx"
  let ?k = "length idx - length sh"
  have len: "length (drop ?k idx) = length sh" using l by simp
  have "rev (zip sh (drop ?k idx)) = zip (rev sh) (rev (drop ?k idx))"
    using len by (simp add: zip_rev)
  also have "rev (drop ?k idx) = take (length sh) (rev idx)"
    using l by (simp add: rev_drop)
  finally have 1: "rev (zip sh (drop ?k idx)) = zip (rev sh) (take (length sh) (rev idx))" .
  have "zip (rev sh) (rev idx) = take (length sh) (zip (rev sh) (rev idx))" by simp
  also have "\<dots> = zip (take (length sh) (rev sh)) (take (length sh) (rev idx))"
    by (rule take_zip)
  finally have 2: "zip (rev sh) (take (length sh) (rev idx)) = zip (rev sh) (rev idx)" by simp
  show ?thesis unfolding bidx_def rev_map 1 2 ..
qed

lemma bshape_length: "bshape a b = Some s \<Longrightarrow> length s = max (length a) (length b)"
  by (auto simp: bshape_def dest!: bshape_rev_length)

lemma bshape_valid:
  assumes "bshape a b = Some s" "valid_idx s idx"
  shows "valid_idx a (bidx a idx)" "valid_idx b (bidx b idx)"
proof -
  from assms(1) obtain rs where rs: "bshape_rev (rev a) (rev b) = Some rs" "s = rev rs"
    by (auto simp: bshape_def)
  from assms(2) have li: "length idx = length s" by (simp add: valid_idx_def list_all2_lengthD)
  have la: "length a \<le> length idx" "length b \<le> length idx"
    using bshape_length[OF assms(1)] li by auto
  from assms(2) rs have "list_all2 (<) (rev idx) rs"
    by (simp add: valid_idx_def list_all2_rev1)
  from bshape_rev_valid[OF rs(1) this]
  have "list_all2 (<) (rev (bidx a idx)) (rev a)" "list_all2 (<) (rev (bidx b idx)) (rev b)"
    using la by (simp_all add: rev_bidx)
  then show "valid_idx a (bidx a idx)" "valid_idx b (bidx b idx)"
    by (simp_all add: valid_idx_def list_all2_rev)
qed

lemma bshape_idem:
  "bshape a b = Some s \<Longrightarrow> bshape s a = Some s \<and> bshape s b = Some s"
proof -
  assume "bshape a b = Some s"
  then obtain rs where rs: "bshape_rev (rev a) (rev b) = Some rs" "s = rev rs"
    by (auto simp: bshape_def)
  from bshape_rev_idem[OF rs(1)] rs(2) show ?thesis by (simp add: bshape_def)
qed

lemma map2_zero_idem:
  "map2 (\<lambda>n i. if n = 1 then 0 else i) xs (map2 (\<lambda>n i. if n = 1 then 0 else i) xs ri)
   = map2 (\<lambda>n i. if n = 1 then 0 else i) xs (ri :: nat list)"
  by (induction xs ri rule: list_induct2') auto

lemma bshape_rev_bidx:
  "bshape_rev ra rb = Some rs \<Longrightarrow>
     map2 (\<lambda>n i. if n = 1 then 0 else i) ra (map2 (\<lambda>n i. if n = 1 then 0 else i) rs ri)
       = map2 (\<lambda>n i. if n = 1 then 0 else i) ra (ri :: nat list)
     \<and> map2 (\<lambda>n i. if n = 1 then 0 else i) rb (map2 (\<lambda>n i. if n = 1 then 0 else i) rs ri)
       = map2 (\<lambda>n i. if n = 1 then 0 else i) rb ri"
proof (induction ra rb arbitrary: rs ri rule: bshape_rev.induct)
  case (1 ys)
  then show ?case using map2_zero_idem[of ys ri] by simp
next
  case (2 x xs)
  then show ?case using map2_zero_idem[of "x # xs" ri] by simp
next
  case (3 x xs y ys)
  from "3.prems" obtain rs' where rs': "bshape_rev xs ys = Some rs'"
    and r: "rs = (if x = y \<or> y = 1 then x else y) # rs'"
    and c: "x = y \<or> y = 1 \<or> x = 1"
    by (auto split: if_splits)
  show ?case
  proof (cases ri)
    case Nil
    then show ?thesis by simp
  next
    case (Cons i ri')
    have ih: "map2 (\<lambda>n i. if n = 1 then 0 else i) xs (map2 (\<lambda>n i. if n = 1 then 0 else i) rs' ri')
       = map2 (\<lambda>n i. if n = 1 then 0 else i) xs ri'
     \<and> map2 (\<lambda>n i. if n = 1 then 0 else i) ys (map2 (\<lambda>n i. if n = 1 then 0 else i) rs' ri')
       = map2 (\<lambda>n i. if n = 1 then 0 else i) ys ri'"
    proof (cases "x = y \<or> y = 1")
      case True
      then show ?thesis using "3.IH"(1)[OF True rs'] by simp
    next
      case False
      then have "x = 1" using c by simp
      then show ?thesis using "3.IH"(2)[OF False _ rs'] by simp
    qed
    show ?thesis using ih c by (auto simp: Cons r)
  qed
qed

lemma length_bidx: "length sh \<le> length idx \<Longrightarrow> length (bidx sh idx) = length sh"
  by (simp add: bidx_def)

lemma bshape_bidx:
  assumes "bshape a b = Some s" "length s \<le> length idx"
  shows "bidx a (bidx s idx) = bidx a idx" "bidx b (bidx s idx) = bidx b idx"
proof -
  from assms(1) obtain rs where rs: "bshape_rev (rev a) (rev b) = Some rs" "s = rev rs"
    by (auto simp: bshape_def)
  have la: "length a \<le> length s" "length b \<le> length s"
    using bshape_length[OF assms(1)] by auto
  have ls: "length (bidx s idx) = length s" using assms(2) by (rule length_bidx)
  have rsi: "rev (bidx s idx) = map2 (\<lambda>n i. if n = 1 then 0 else i) rs (rev idx)"
    using rev_bidx[OF assms(2)] rs(2) by simp
  have "rev (bidx a (bidx s idx)) = rev (bidx a idx)"
    using bshape_rev_bidx[OF rs(1), of "rev idx"] la assms(2) ls
    by (simp add: rev_bidx rsi)
  moreover have "rev (bidx b (bidx s idx)) = rev (bidx b idx)"
    using bshape_rev_bidx[OF rs(1), of "rev idx"] la assms(2) ls
    by (simp add: rev_bidx rsi)
  ultimately show "bidx a (bidx s idx) = bidx a idx" "bidx b (bidx s idx) = bidx b idx"
    by simp_all
qed

lemma tzip_eq_Inr:
  "tzip f a b = Inr r \<longleftrightarrow>
     (\<exists>s. bshape (shape a) (shape b) = Some s
        \<and> r = \<lparr>shape = s, elem = (\<lambda>idx. f (lane a idx) (lane b idx))\<rparr>)"
  by (auto simp: tzip_def lane_def split: option.splits)

lemma tzip_shape: "tzip f a b = Inr r \<Longrightarrow> bshape (shape a) (shape b) = Some (shape r)"
  by (auto simp: tzip_eq_Inr)

lemma tzip_elem: "tzip f a b = Inr r \<Longrightarrow> elem r idx = f (lane a idx) (lane b idx)"
  by (auto simp: tzip_eq_Inr)

lemma tzip_lane:
  assumes "tzip f a b = Inr r" "length (shape r) \<le> length idx"
  shows "lane r idx = f (lane a idx) (lane b idx)"
  using assms bshape_bidx[OF tzip_shape[OF assms(1)] assms(2)]
  by (simp add: lane_def tzip_elem[OF assms(1)])

lemma lane_valid: "valid_idx (shape t) idx \<Longrightarrow> lane t idx = elem t idx"
  by (simp add: lane_def bidx_valid)

lemma lane_tmap: "lane (tmap f t) idx = f (lane t idx)"
  by (simp add: lane_def tmap_def)

lemma shape_tmap: "shape (tmap f t) = shape t"
  by (simp add: tmap_def)

lemma elem_tmap: "elem (tmap f t) idx = f (elem t idx)"
  by (simp add: tmap_def)

lemma lane_tfull: "lane (tfull sh v) idx = v"
  by (simp add: lane_def tfull_def)

lemma tzip_inplace_eq_Inr:
  "tzip_inplace f a b = Inr r \<longleftrightarrow> tzip f a b = Inr r \<and> shape r = shape a"
  by (cases "tzip f a b") (auto simp: tzip_inplace_def)

lemma tzip_same_shape:
  "shape a = shape b \<Longrightarrow>
     tzip f a b = Inr \<lparr>shape = shape a, elem = (\<lambda>idx. f (lane a idx) (lane b idx))\<rparr>"
  by (simp add: tzip_def bshape_same lane_def)

lemma py_dim_less: "py_dim n i = Some d \<Longrightarrow> d < n"
  by (auto simp: py_dim_def split: if_splits)

section \<open>Properties: FSUMul\<close>

lemma ebindE:
  assumes "ebind m f = Inr y"
  obtains x where "m = Inr x" "f x = Inr y"
  using assms by (cases m) (simp_all add: ebind_def)

lemma tzip_length:
  "tzip f a b = Inr r \<Longrightarrow> length (shape r) = max (length (shape a)) (length (shape b))"
  by (auto dest!: tzip_shape bshape_length)

lemma BSGen_eq_Inr:
  "BSGen source rng_seq idx = Inr gbit \<longleftrightarrow> rng_seq \<noteq> [] \<and> tzip (bs_bit rng_seq) source idx = Inr gbit"
  by (simp add: BSGen_def)

lemma of_option_eq_Inr: "of_option e m = Inr x \<longleftrightarrow> m = Some x"
  by (cases m) (simp_all add: of_option_def)

lemma FSUMul_forward_static: "FSUMul_forward st input_0 = Inr r \<Longrightarrow> m_static st = True"
  by (simp add: FSUMul_forward_def split: if_splits)

lemma FSUMul_forward_Inr:
  assumes ok: "FSUMul_forward st input_0 = Inr (out, st')"
  obtains gbit p0 idx' where
    "tzip (bs_bit (m_rng st)) (m_source_gen st) (m_rng_idx st) = Inr gbit"
    "tzip (AND) input_0 gbit = Inr p0"
    "tzip (+) (m_rng_idx st) input_0 = Inr idx'"
    "m_mode st = ''unipolar'' \<and> out = p0 \<and> st' = st\<lparr>m_rng_idx := idx'\<rparr>
     \<or> m_mode st = ''bipolar'' \<and>
        (\<exists>cinv gbit_inv p1 cinv'.
           m_rng_idx_inv st = Some cinv
           \<and> tzip (bs_bit (m_rng st)) (m_source_gen st) cinv = Inr gbit_inv
           \<and> tzip (AND) (tmap (\<lambda>x. 1 - x) input_0) (tmap (\<lambda>b. 1 - b) gbit_inv) = Inr p1
           \<and> tzip (+) cinv (tmap (\<lambda>x. 1 - x) input_0) = Inr cinv'
           \<and> tzip (OR) p0 p1 = Inr out
           \<and> st' = st\<lparr>m_rng_idx := idx', m_rng_idx_inv := Some cinv'\<rparr>)"
proof -
  have s: "m_static st = True" using ok by (rule FSUMul_forward_static)
  let ?rest = "\<lambda>path_0 idx'. (let st1 = st\<lparr>m_rng_idx := idx'\<rparr> in
          if m_mode st1 = ''unipolar'' then Inr (path_0, st1)
          else if m_mode st1 = ''bipolar'' then
            ebind (of_option AttributeError (m_rng_idx_inv st1)) (\<lambda>idx_inv.
            ebind (BSGen (m_source_gen st1) (m_rng st1) idx_inv) (\<lambda>bit_inv.
            ebind (tzip (AND) (tmap (\<lambda>x. 1 - x) input_0) (tmap (\<lambda>b. 1 - b) bit_inv)) (\<lambda>path_1.
            ebind (tzip (+) idx_inv (tmap (\<lambda>x. 1 - x) input_0)) (\<lambda>idx_inv'.
            ebind (tzip (OR) path_0 path_1) (\<lambda>out.
              Inr (out, st1\<lparr>m_rng_idx_inv := Some idx_inv'\<rparr>))))))
          else Inl ValueError)"
  from ok have "ebind (BSGen (m_source_gen st) (m_rng st) (m_rng_idx st)) (\<lambda>gbit.
        ebind (tzip (AND) input_0 gbit) (\<lambda>path_0.
        ebind (tzip (+) (m_rng_idx st) input_0) (\<lambda>idx'. ?rest path_0 idx'))) = Inr (out, st')"
    by (simp add: FSUMul_forward_def s)
  then obtain gbit where g: "BSGen (m_source_gen st) (m_rng st) (m_rng_idx st) = Inr gbit"
    and r1: "ebind (tzip (AND) input_0 gbit) (\<lambda>path_0.
        ebind (tzip (+) (m_rng_idx st) input_0) (\<lambda>idx'. ?rest path_0 idx')) = Inr (out, st')"
    by (rule ebindE)
  from r1 obtain p0 where p0: "tzip (AND) input_0 gbit = Inr p0"
    and r2: "ebind (tzip (+) (m_rng_idx st) input_0) (\<lambda>idx'. ?rest p0 idx') = Inr (out, st')"
    by (rule ebindE)
  from r2 obtain idx' where idx': "tzip (+) (m_rng_idx st) input_0 = Inr idx'"
    and r3: "?rest p0 idx' = Inr (out, st')"
    by (rule ebindE)
  from g have gbit: "tzip (bs_bit (m_rng st)) (m_source_gen st) (m_rng_idx st) = Inr gbit"
    by (simp add: BSGen_eq_Inr)
  consider (u) "m_mode st = ''unipolar''" | (b) "m_mode st \<noteq> ''unipolar''" "m_mode st = ''bipolar''"
    using r3 by (auto simp: Let_def split: if_splits)
  then show thesis
  proof cases
    case u
    with r3 have "out = p0 \<and> st' = st\<lparr>m_rng_idx := idx'\<rparr>" by (simp add: Let_def)
    with u show thesis using that[OF gbit p0 idx'] by blast
  next
    case b
    let ?st1 = "st\<lparr>m_rng_idx := idx'\<rparr>"
    from r3 b have "ebind (of_option AttributeError (m_rng_idx_inv st)) (\<lambda>idx_inv.
            ebind (BSGen (m_source_gen st) (m_rng st) idx_inv) (\<lambda>bit_inv.
            ebind (tzip (AND) (tmap (\<lambda>x. 1 - x) input_0) (tmap (\<lambda>b. 1 - b) bit_inv)) (\<lambda>path_1.
            ebind (tzip (+) idx_inv (tmap (\<lambda>x. 1 - x) input_0)) (\<lambda>idx_inv'.
            ebind (tzip (OR) p0 path_1) (\<lambda>out.
              Inr (out, ?st1\<lparr>m_rng_idx_inv := Some idx_inv'\<rparr>)))))) = Inr (out, st')"
      by (simp add: Let_def)
    then obtain cinv where c: "of_option AttributeError (m_rng_idx_inv st) = Inr cinv"
      and q1: "ebind (BSGen (m_source_gen st) (m_rng st) cinv) (\<lambda>bit_inv.
            ebind (tzip (AND) (tmap (\<lambda>x. 1 - x) input_0) (tmap (\<lambda>b. 1 - b) bit_inv)) (\<lambda>path_1.
            ebind (tzip (+) cinv (tmap (\<lambda>x. 1 - x) input_0)) (\<lambda>idx_inv'.
            ebind (tzip (OR) p0 path_1) (\<lambda>out.
              Inr (out, ?st1\<lparr>m_rng_idx_inv := Some idx_inv'\<rparr>))))) = Inr (out, st')"
      by (rule ebindE)
    from q1 obtain gbit_inv where gi: "BSGen (m_source_gen st) (m_rng st) cinv = Inr gbit_inv"
      and q2: "ebind (tzip (AND) (tmap (\<lambda>x. 1 - x) input_0) (tmap (\<lambda>b. 1 - b) gbit_inv)) (\<lambda>path_1.
            ebind (tzip (+) cinv (tmap (\<lambda>x. 1 - x) input_0)) (\<lambda>idx_inv'.
            ebind (tzip (OR) p0 path_1) (\<lambda>out.
              Inr (out, ?st1\<lparr>m_rng_idx_inv := Some idx_inv'\<rparr>)))) = Inr (out, st')"
      by (rule ebindE)
    from q2 obtain p1 where
      p1: "tzip (AND) (tmap (\<lambda>x. 1 - x) input_0) (tmap (\<lambda>b. 1 - b) gbit_inv) = Inr p1"
      and q3: "ebind (tzip (+) cinv (tmap (\<lambda>x. 1 - x) input_0)) (\<lambda>idx_inv'.
            ebind (tzip (OR) p0 p1) (\<lambda>out.
              Inr (out, ?st1\<lparr>m_rng_idx_inv := Some idx_inv'\<rparr>))) = Inr (out, st')"
      by (rule ebindE)
    from q3 obtain cinv' where cinv': "tzip (+) cinv (tmap (\<lambda>x. 1 - x) input_0) = Inr cinv'"
      and q4: "ebind (tzip (OR) p0 p1) (\<lambda>out.
              Inr (out, ?st1\<lparr>m_rng_idx_inv := Some cinv'\<rparr>)) = Inr (out, st')"
      by (rule ebindE)
    from q4 obtain o' where o': "tzip (OR) p0 p1 = Inr o'"
      and q5: "(Inr (o', ?st1\<lparr>m_rng_idx_inv := Some cinv'\<rparr>) :: error + _) = Inr (out, st')"
      by (rule ebindE)
    from q5 o' have out: "tzip (OR) p0 p1 = Inr out"
      and st': "st' = st\<lparr>m_rng_idx := idx', m_rng_idx_inv := Some cinv'\<rparr>" by simp_all
    from c have c': "m_rng_idx_inv st = Some cinv" by (simp add: of_option_eq_Inr)
    from gi have gi': "tzip (bs_bit (m_rng st)) (m_source_gen st) cinv = Inr gbit_inv"
      by (simp add: BSGen_eq_Inr)
    show thesis using that[OF gbit p0 idx'] b c' gi' p1 cinv' out st' by blast
  qed
qed

lemma FSUMul_forward_unipolar:
  assumes ok: "FSUMul_forward st input_0 = Inr (out, st')"
    and m: "m_mode st = ''unipolar''"
    and v: "valid_idx (shape out) idx"
  shows "elem out idx =
           lane input_0 idx AND bs_bit (m_rng st) (lane (m_source_gen st) idx) (lane (m_rng_idx st) idx)
         \<and> lane (m_rng_idx st') idx = lane (m_rng_idx st) idx + lane input_0 idx"
proof -
  from ok obtain gbit p0 idx' where
    gbit: "tzip (bs_bit (m_rng st)) (m_source_gen st) (m_rng_idx st) = Inr gbit"
    and p0: "tzip (AND) input_0 gbit = Inr p0"
    and idx': "tzip (+) (m_rng_idx st) input_0 = Inr idx'"
    and d: "m_mode st = ''unipolar'' \<and> out = p0 \<and> st' = st\<lparr>m_rng_idx := idx'\<rparr>
     \<or> m_mode st = ''bipolar'' \<and>
        (\<exists>cinv gbit_inv p1 cinv'.
           m_rng_idx_inv st = Some cinv
           \<and> tzip (bs_bit (m_rng st)) (m_source_gen st) cinv = Inr gbit_inv
           \<and> tzip (AND) (tmap (\<lambda>x. 1 - x) input_0) (tmap (\<lambda>b. 1 - b) gbit_inv) = Inr p1
           \<and> tzip (+) cinv (tmap (\<lambda>x. 1 - x) input_0) = Inr cinv'
           \<and> tzip (OR) p0 p1 = Inr out
           \<and> st' = st\<lparr>m_rng_idx := idx', m_rng_idx_inv := Some cinv'\<rparr>)"
    by (rule FSUMul_forward_Inr)
  from d m have out: "tzip (AND) input_0 gbit = Inr out" and st': "st' = st\<lparr>m_rng_idx := idx'\<rparr>"
    using p0 by auto
  from v have li: "length idx = length (shape out)"
    by (simp add: valid_idx_def list_all2_lengthD)
  have lb: "length (shape gbit) \<le> length idx" and lx: "length (shape idx') \<le> length idx"
    using tzip_length[OF out] tzip_length[OF gbit] tzip_length[OF idx'] li by auto
  have "elem out idx =
           lane input_0 idx AND bs_bit (m_rng st) (lane (m_source_gen st) idx) (lane (m_rng_idx st) idx)"
    using tzip_elem[OF out, of idx] tzip_lane[OF gbit lb] by simp
  moreover have "lane (m_rng_idx st') idx = lane (m_rng_idx st) idx + lane input_0 idx"
    using tzip_lane[OF idx' lx] st' by simp
  ultimately show ?thesis by simp
qed

lemma FSUMul_forward_bipolar:
  assumes ok: "FSUMul_forward st input_0 = Inr (out, st')"
    and m: "m_mode st = ''bipolar''"
    and v: "valid_idx (shape out) idx"
  shows "\<exists>cinv cinv'. m_rng_idx_inv st = Some cinv \<and> m_rng_idx_inv st' = Some cinv'
     \<and> elem out idx =
           (lane input_0 idx AND bs_bit (m_rng st) (lane (m_source_gen st) idx) (lane (m_rng_idx st) idx))
           OR ((1 - lane input_0 idx)
               AND (1 - bs_bit (m_rng st) (lane (m_source_gen st) idx) (lane cinv idx)))
     \<and> lane (m_rng_idx st') idx = lane (m_rng_idx st) idx + lane input_0 idx
     \<and> lane cinv' idx = lane cinv idx + (1 - lane input_0 idx)"
proof -
  from ok obtain gbit p0 idx' where
    gbit: "tzip (bs_bit (m_rng st)) (m_source_gen st) (m_rng_idx st) = Inr gbit"
    and p0: "tzip (AND) input_0 gbit = Inr p0"
    and idx': "tzip (+) (m_rng_idx st) input_0 = Inr idx'"
    and d: "m_mode st = ''unipolar'' \<and> out = p0 \<and> st' = st\<lparr>m_rng_idx := idx'\<rparr>
     \<or> m_mode st = ''bipolar'' \<and>
        (\<exists>cinv gbit_inv p1 cinv'.
           m_rng_idx_inv st = Some cinv
           \<and> tzip (bs_bit (m_rng st)) (m_source_gen st) cinv = Inr gbit_inv
           \<and> tzip (AND) (tmap (\<lambda>x. 1 - x) input_0) (tmap (\<lambda>b. 1 - b) gbit_inv) = Inr p1
           \<and> tzip (+) cinv (tmap (\<lambda>x. 1 - x) input_0) = Inr cinv'
           \<and> tzip (OR) p0 p1 = Inr out
           \<and> st' = st\<lparr>m_rng_idx := idx', m_rng_idx_inv := Some cinv'\<rparr>)"
    by (rule FSUMul_forward_Inr)
  from d m obtain cinv gbit_inv p1 cinv' where
    cinv: "m_rng_idx_inv st = Some cinv"
    and gbit_inv: "tzip (bs_bit (m_rng st)) (m_source_gen st) cinv = Inr gbit_inv"
    and p1: "tzip (AND) (tmap (\<lambda>x. 1 - x) input_0) (tmap (\<lambda>b. 1 - b) gbit_inv) = Inr p1"
    and cinv': "tzip (+) cinv (tmap (\<lambda>x. 1 - x) input_0) = Inr cinv'"
    and out: "tzip (OR) p0 p1 = Inr out"
    and st': "st' = st\<lparr>m_rng_idx := idx', m_rng_idx_inv := Some cinv'\<rparr>"
    by auto
  from v have li: "length idx = length (shape out)"
    by (simp add: valid_idx_def list_all2_lengthD)
  have l1: "length (shape p0) \<le> length idx" and l2: "length (shape p1) \<le> length idx"
    using tzip_length[OF out] li by simp_all
  have l3: "length (shape gbit) \<le> length idx"
    using tzip_length[OF p0] l1 by simp
  have l4: "length (shape gbit_inv) \<le> length idx"
    using tzip_length[OF p1] l2 by (simp add: shape_tmap)
  have li0: "length (shape input_0) \<le> length idx"
    using tzip_length[OF p0] l1 by simp
  have l5: "length (shape idx') \<le> length idx"
    using tzip_length[OF idx'] tzip_length[OF gbit] l3 li0 by simp
  have l6: "length (shape cinv') \<le> length idx"
    using tzip_length[OF cinv'] tzip_length[OF gbit_inv] l4 li0 by (simp add: shape_tmap)
  have "elem out idx = lane p0 idx OR lane p1 idx" by (rule tzip_elem[OF out])
  also have "lane p0 idx = lane input_0 idx AND lane gbit idx" by (rule tzip_lane[OF p0 l1])
  also have "lane gbit idx = bs_bit (m_rng st) (lane (m_source_gen st) idx) (lane (m_rng_idx st) idx)"
    by (rule tzip_lane[OF gbit l3])
  also have "lane p1 idx = (1 - lane input_0 idx) AND (1 - lane gbit_inv idx)"
    using tzip_lane[OF p1 l2] by (simp add: lane_tmap)
  also have "lane gbit_inv idx = bs_bit (m_rng st) (lane (m_source_gen st) idx) (lane cinv idx)"
    by (rule tzip_lane[OF gbit_inv l4])
  finally have o: "elem out idx =
           (lane input_0 idx AND bs_bit (m_rng st) (lane (m_source_gen st) idx) (lane (m_rng_idx st) idx))
           OR ((1 - lane input_0 idx)
               AND (1 - bs_bit (m_rng st) (lane (m_source_gen st) idx) (lane cinv idx)))" .
  have a: "lane (m_rng_idx st') idx = lane (m_rng_idx st) idx + lane input_0 idx"
    using tzip_lane[OF idx' l5] st' by simp
  have b: "lane cinv' idx = lane cinv idx + (1 - lane input_0 idx)"
    using tzip_lane[OF cinv' l6] by (simp add: lane_tmap)
  show ?thesis using cinv st' o a b by simp
qed

lemma FSUMul_forward_bipolar_counters:
  assumes ok: "FSUMul_forward st x = Inr (out, st')"
    and m: "m_mode st = ''bipolar''"
    and c: "m_rng_idx_inv st = Some cinv"
    and sh: "shape cinv = shape (m_rng_idx st)"
    and inv: "\<forall>idx. valid_idx (shape (m_rng_idx st)) idx \<longrightarrow> elem (m_rng_idx st) idx + elem cinv idx = n"
  shows "\<exists>cinv'. m_rng_idx_inv st' = Some cinv' \<and> shape cinv' = shape (m_rng_idx st')
     \<and> m_mode st' = ''bipolar''
     \<and> (\<forall>idx. valid_idx (shape (m_rng_idx st')) idx \<longrightarrow>
           elem (m_rng_idx st') idx + elem cinv' idx = n + 1)"
proof -
  from ok obtain gbit p0 idx' where
    idx': "tzip (+) (m_rng_idx st) x = Inr idx'"
    and d: "m_mode st = ''unipolar'' \<and> out = p0 \<and> st' = st\<lparr>m_rng_idx := idx'\<rparr>
     \<or> m_mode st = ''bipolar'' \<and>
        (\<exists>cinv gbit_inv p1 cinv'.
           m_rng_idx_inv st = Some cinv
           \<and> tzip (bs_bit (m_rng st)) (m_source_gen st) cinv = Inr gbit_inv
           \<and> tzip (AND) (tmap (\<lambda>x. 1 - x) x) (tmap (\<lambda>b. 1 - b) gbit_inv) = Inr p1
           \<and> tzip (+) cinv (tmap (\<lambda>x. 1 - x) x) = Inr cinv'
           \<and> tzip (OR) p0 p1 = Inr out
           \<and> st' = st\<lparr>m_rng_idx := idx', m_rng_idx_inv := Some cinv'\<rparr>)"
    by (rule FSUMul_forward_Inr)
  from d m c obtain cinv' where
    cinv': "tzip (+) cinv (tmap (\<lambda>x. 1 - x) x) = Inr cinv'"
    and st': "st' = st\<lparr>m_rng_idx := idx', m_rng_idx_inv := Some cinv'\<rparr>"
    by auto
  have s1: "bshape (shape (m_rng_idx st)) (shape x) = Some (shape idx')"
    using idx' by (rule tzip_shape)
  have s2: "bshape (shape (m_rng_idx st)) (shape x) = Some (shape cinv')"
    using tzip_shape[OF cinv'] by (simp add: sh shape_tmap)
  have shs: "shape cinv' = shape idx'" using s1 s2 by simp
  have step: "elem idx' idx + elem cinv' idx = n + 1" if v: "valid_idx (shape idx') idx" for idx
  proof -
    have vi: "valid_idx (shape (m_rng_idx st)) (bidx (shape (m_rng_idx st)) idx)"
      using bshape_valid(1)[OF s1 v] .
    have "elem idx' idx = lane (m_rng_idx st) idx + lane x idx"
      by (rule tzip_elem[OF idx'])
    moreover have "elem cinv' idx = lane cinv idx + (1 - lane x idx)"
      using tzip_elem[OF cinv', of idx] by (simp add: lane_tmap)
    moreover have "lane (m_rng_idx st) idx + lane cinv idx = n"
      using inv vi by (simp add: lane_def sh)
    ultimately show ?thesis by simp
  qed
  show ?thesis using st' shs step m by simp
qed

lemma FSUMul_run_counters:
  assumes "FSUMul_run st xs = Inr (outs, st')"
    and "m_mode st = ''bipolar''"
    and "m_rng_idx_inv st = Some cinv"
    and "shape cinv = shape (m_rng_idx st)"
    and "\<forall>idx. valid_idx (shape (m_rng_idx st)) idx \<longrightarrow> elem (m_rng_idx st) idx + elem cinv idx = n"
  shows "\<exists>cinv'. m_rng_idx_inv st' = Some cinv' \<and> shape cinv' = shape (m_rng_idx st')
     \<and> (\<forall>idx. valid_idx (shape (m_rng_idx st')) idx \<longrightarrow>
           elem (m_rng_idx st') idx + elem cinv' idx = n + int (length xs))"
  using assms
proof (induction xs arbitrary: st outs cinv n)
  case Nil
  then show ?case by simp
next
  case (Cons x xs)
  from Cons.prems(1) obtain r where r: "FSUMul_forward st x = Inr r"
    and rest: "(case r of (out, st1) \<Rightarrow>
       ebind (FSUMul_run st1 xs) (\<lambda>(outs, st''). Inr (out # outs, st''))) = Inr (outs, st')"
    by (auto elim: ebindE)
  obtain out st1 where r': "r = (out, st1)" by (cases r)
  from rest r' obtain r2 where run: "FSUMul_run st1 xs = Inr r2"
    and fin: "(case r2 of (outs', st'') \<Rightarrow> (Inr (out # outs', st'') :: error + _)) = Inr (outs, st')"
    by (auto elim: ebindE)
  obtain outs' st2 where r2: "r2 = (outs', st2)" by (cases r2)
  from fin r2 have st2: "st2 = st'" by simp
  from FSUMul_forward_bipolar_counters[OF r[unfolded r'] Cons.prems(2,3,4,5)]
  obtain cinv1 where c1: "m_rng_idx_inv st1 = Some cinv1"
    and sh1: "shape cinv1 = shape (m_rng_idx st1)"
    and m1: "m_mode st1 = ''bipolar''"
    and inv1: "\<forall>idx. valid_idx (shape (m_rng_idx st1)) idx \<longrightarrow>
           elem (m_rng_idx st1) idx + elem cinv1 idx = n + 1"
    by blast
  from Cons.IH[OF run[unfolded r2 st2] m1 c1 sh1 inv1] show ?case
    by (simp add: add.assoc)
qed


lemma tzip_defined:
  "bshape (shape a) (shape b) = Some s \<Longrightarrow>
     tzip f a b = Inr \<lparr>shape = s, elem = (\<lambda>idx. f (lane a idx) (lane b idx))\<rparr>"
  by (simp add: tzip_def lane_def)

lemma bshape_one_or_same:
  assumes "s \<noteq> []" "c = [1] \<or> c = s"
  shows "bshape s c = Some s" "bshape c s = Some s"
  using assms bshape_one1[of s] bshape_one2[of s] by (auto simp: bshape_same)

lemma FSUMul_forward_returns_unipolar:
  assumes "m_static st = True" "m_rng st \<noteq> []" "m_mode st = ''unipolar''"
    and "shape (m_source_gen st) = shape x" "shape x \<noteq> []"
    and "shape (m_rng_idx st) = [1] \<or> shape (m_rng_idx st) = shape x"
  shows "\<exists>out st'. FSUMul_forward st x = Inr (out, st') \<and> shape out = shape x
     \<and> shape (m_rng_idx st') = shape x"
proof -
  note b = bshape_one_or_same[OF assms(5) assms(6)]
  have 1: "tzip (bs_bit (m_rng st)) (m_source_gen st) (m_rng_idx st)
     = Inr \<lparr>shape = shape x,
            elem = (\<lambda>idx. bs_bit (m_rng st) (lane (m_source_gen st) idx) (lane (m_rng_idx st) idx))\<rparr>"
    by (rule tzip_defined) (simp add: assms(4) b)
  have 2: "tzip (AND) x \<lparr>shape = shape x,
            elem = (\<lambda>idx. bs_bit (m_rng st) (lane (m_source_gen st) idx) (lane (m_rng_idx st) idx))\<rparr>
     = Inr \<lparr>shape = shape x, elem = (\<lambda>idx. lane x idx AND lane \<lparr>shape = shape x,
            elem = (\<lambda>idx. bs_bit (m_rng st) (lane (m_source_gen st) idx) (lane (m_rng_idx st) idx))\<rparr> idx)\<rparr>"
    by (rule tzip_defined) (simp add: bshape_same)
  have 3: "tzip (+) (m_rng_idx st) x
     = Inr \<lparr>shape = shape x, elem = (\<lambda>idx. lane (m_rng_idx st) idx + lane x idx)\<rparr>"
    by (rule tzip_defined) (simp add: b)
  show ?thesis
    unfolding FSUMul_forward_def BSGen_def
    by (simp add: assms(1-3) 1 2 3 ebind_def Let_def)
qed

lemma FSUMul_forward_returns_bipolar:
  assumes "m_static st = True" "m_rng st \<noteq> []" "m_mode st = ''bipolar''"
    and "shape (m_source_gen st) = shape x" "shape x \<noteq> []"
    and "shape (m_rng_idx st) = [1] \<or> shape (m_rng_idx st) = shape x"
    and "m_rng_idx_inv st = Some cinv" "shape cinv = [1] \<or> shape cinv = shape x"
  shows "\<exists>out st' cinv'. FSUMul_forward st x = Inr (out, st') \<and> shape out = shape x
     \<and> shape (m_rng_idx st') = shape x \<and> m_rng_idx_inv st' = Some cinv'
     \<and> shape cinv' = shape x"
proof -
  note b = bshape_one_or_same[OF assms(5) assms(6)]
  note c = bshape_one_or_same[OF assms(5) assms(8)]
  let ?x' = "tmap (\<lambda>x. 1 - x) x"
  have sx: "shape ?x' = shape x" by (simp add: shape_tmap)
  have 1: "tzip (bs_bit (m_rng st)) (m_source_gen st) (m_rng_idx st)
     = Inr \<lparr>shape = shape x,
            elem = (\<lambda>idx. bs_bit (m_rng st) (lane (m_source_gen st) idx) (lane (m_rng_idx st) idx))\<rparr>"
    (is "_ = Inr ?bit")
    by (rule tzip_defined) (simp add: assms(4) b)
  have 2: "tzip (AND) x ?bit
     = Inr \<lparr>shape = shape x, elem = (\<lambda>idx. lane x idx AND lane ?bit idx)\<rparr>"
    (is "_ = Inr ?p0")
    by (rule tzip_defined) (simp add: bshape_same)
  have 3: "tzip (+) (m_rng_idx st) x
     = Inr \<lparr>shape = shape x, elem = (\<lambda>idx. lane (m_rng_idx st) idx + lane x idx)\<rparr>"
    by (rule tzip_defined) (simp add: b)
  have 4: "tzip (bs_bit (m_rng st)) (m_source_gen st) cinv
     = Inr \<lparr>shape = shape x,
            elem = (\<lambda>idx. bs_bit (m_rng st) (lane (m_source_gen st) idx) (lane cinv idx))\<rparr>"
    (is "_ = Inr ?bit_inv")
    by (rule tzip_defined) (simp add: assms(4) c)
  have 5: "tzip (AND) ?x' (tmap (\<lambda>b. 1 - b) ?bit_inv)
     = Inr \<lparr>shape = shape x,
            elem = (\<lambda>idx. lane ?x' idx AND lane (tmap (\<lambda>b. 1 - b) ?bit_inv) idx)\<rparr>"
    (is "_ = Inr ?p1")
    by (rule tzip_defined) (simp add: shape_tmap bshape_same)
  have 6: "tzip (+) cinv ?x'
     = Inr \<lparr>shape = shape x, elem = (\<lambda>idx. lane cinv idx + lane ?x' idx)\<rparr>"
    by (rule tzip_defined) (simp add: shape_tmap c)
  have 7: "tzip (OR) ?p0 ?p1
     = Inr \<lparr>shape = shape x, elem = (\<lambda>idx. lane ?p0 idx OR lane ?p1 idx)\<rparr>"
    by (rule tzip_defined) (simp add: bshape_same)
  show ?thesis
    unfolding FSUMul_forward_def BSGen_def
    by (simp add: assms(1-3,7) 1 2 3 4 5 6 7 ebind_def Let_def of_option_def)
qed

lemma FSUMul_forward_shapes:
  assumes ok: "FSUMul_forward st x = Inr (out, st')"
  shows "m_static st' = m_static st \<and> m_mode st' = m_mode st \<and> m_rng st' = m_rng st
     \<and> m_source_gen st' = m_source_gen st \<and> m_bitwidth st' = m_bitwidth st
     \<and> bshape (shape (m_rng_idx st)) (shape x) = Some (shape (m_rng_idx st'))
     \<and> (\<forall>idx. elem (m_rng_idx st') idx = lane (m_rng_idx st) idx + lane x idx)
     \<and> (m_mode st = ''unipolar'' \<longrightarrow> m_rng_idx_inv st' = m_rng_idx_inv st
          \<and> (\<exists>B. bshape (shape (m_source_gen st)) (shape (m_rng_idx st)) = Some B
                \<and> bshape (shape x) B = Some (shape out)))
     \<and> (m_mode st = ''bipolar'' \<longrightarrow>
          (\<exists>cinv cinv' B P B' P'. m_rng_idx_inv st = Some cinv \<and> m_rng_idx_inv st' = Some cinv'
             \<and> bshape (shape cinv) (shape x) = Some (shape cinv')
             \<and> (\<forall>idx. elem cinv' idx = lane cinv idx + (1 - lane x idx))
             \<and> bshape (shape (m_source_gen st)) (shape (m_rng_idx st)) = Some B
             \<and> bshape (shape x) B = Some P
             \<and> bshape (shape (m_source_gen st)) (shape cinv) = Some B'
             \<and> bshape (shape x) B' = Some P'
             \<and> bshape P P' = Some (shape out)))"
proof -
  from ok obtain gbit p0 idx' where
    gbit: "tzip (bs_bit (m_rng st)) (m_source_gen st) (m_rng_idx st) = Inr gbit"
    and p0: "tzip (AND) x gbit = Inr p0"
    and idx': "tzip (+) (m_rng_idx st) x = Inr idx'"
    and d: "m_mode st = ''unipolar'' \<and> out = p0 \<and> st' = st\<lparr>m_rng_idx := idx'\<rparr>
     \<or> m_mode st = ''bipolar'' \<and>
        (\<exists>cinv gbit_inv p1 cinv'.
           m_rng_idx_inv st = Some cinv
           \<and> tzip (bs_bit (m_rng st)) (m_source_gen st) cinv = Inr gbit_inv
           \<and> tzip (AND) (tmap (\<lambda>x. 1 - x) x) (tmap (\<lambda>b. 1 - b) gbit_inv) = Inr p1
           \<and> tzip (+) cinv (tmap (\<lambda>x. 1 - x) x) = Inr cinv'
           \<and> tzip (OR) p0 p1 = Inr out
           \<and> st' = st\<lparr>m_rng_idx := idx', m_rng_idx_inv := Some cinv'\<rparr>)"
    by (rule FSUMul_forward_Inr)
  note sg = tzip_shape[OF gbit] and sp = tzip_shape[OF p0] and si = tzip_shape[OF idx']
  note ei = tzip_elem[OF idx']
  from d show ?thesis
  proof
    assume u: "m_mode st = ''unipolar'' \<and> out = p0 \<and> st' = st\<lparr>m_rng_idx := idx'\<rparr>"
    then show ?thesis using sg sp si ei by simp
  next
    assume "m_mode st = ''bipolar'' \<and>
        (\<exists>cinv gbit_inv p1 cinv'.
           m_rng_idx_inv st = Some cinv
           \<and> tzip (bs_bit (m_rng st)) (m_source_gen st) cinv = Inr gbit_inv
           \<and> tzip (AND) (tmap (\<lambda>x. 1 - x) x) (tmap (\<lambda>b. 1 - b) gbit_inv) = Inr p1
           \<and> tzip (+) cinv (tmap (\<lambda>x. 1 - x) x) = Inr cinv'
           \<and> tzip (OR) p0 p1 = Inr out
           \<and> st' = st\<lparr>m_rng_idx := idx', m_rng_idx_inv := Some cinv'\<rparr>)"
    then obtain cinv gbit_inv p1 cinv' where m: "m_mode st = ''bipolar''"
      and c: "m_rng_idx_inv st = Some cinv"
      and gi: "tzip (bs_bit (m_rng st)) (m_source_gen st) cinv = Inr gbit_inv"
      and p1: "tzip (AND) (tmap (\<lambda>x. 1 - x) x) (tmap (\<lambda>b. 1 - b) gbit_inv) = Inr p1"
      and ci: "tzip (+) cinv (tmap (\<lambda>x. 1 - x) x) = Inr cinv'"
      and o: "tzip (OR) p0 p1 = Inr out"
      and s: "st' = st\<lparr>m_rng_idx := idx', m_rng_idx_inv := Some cinv'\<rparr>"
      by blast
    have e: "elem cinv' idx = lane cinv idx + (1 - lane x idx)" for idx
      using tzip_elem[OF ci, of idx] by (simp add: lane_tmap)
    have s1: "bshape (shape cinv) (shape x) = Some (shape cinv')"
      using tzip_shape[OF ci] by (simp add: shape_tmap)
    have s2: "bshape (shape x) (shape gbit_inv) = Some (shape p1)"
      using tzip_shape[OF p1] by (simp add: shape_tmap)
    show ?thesis
      using m c s e s1 s2 sg sp si ei tzip_shape[OF gi] tzip_shape[OF o] by simp
  qed
qed

lemma FSUMul_forward_scalar_step:
  assumes "m_static s = True" "m_mode s = ''bipolar''" "m_rng s \<noteq> []"
    and "shape (m_source_gen s) = [1]" "shape (m_rng_idx s) = [1]"
    and "m_rng_idx_inv s = Some cinv" "shape cinv = [1]" "shape x = [1]"
  shows "\<exists>out s' cinv'. FSUMul_forward s x = Inr (out, s')
     \<and> shape out = [1]
     \<and> m_static s' = True \<and> m_mode s' = ''bipolar'' \<and> m_rng s' = m_rng s
     \<and> m_source_gen s' = m_source_gen s \<and> shape (m_rng_idx s') = [1]
     \<and> m_rng_idx_inv s' = Some cinv' \<and> shape cinv' = [1]
     \<and> elem (m_rng_idx s') [0] = elem (m_rng_idx s) [0] + elem x [0]
     \<and> elem cinv' [0] = elem cinv [0] + (1 - elem x [0])"
proof -
  have ne: "shape x \<noteq> []" using assms(8) by simp
  from FSUMul_forward_returns_bipolar[of s x cinv] ne assms
  obtain out s' cinv' where f: "FSUMul_forward s x = Inr (out, s')"
    and so: "shape out = [1]" and si: "shape (m_rng_idx s') = [1]"
    and c': "m_rng_idx_inv s' = Some cinv'" and sc: "shape cinv' = [1]"
    by auto
  have v: "valid_idx [1] [0]" by (simp add: valid_idx_def)
  have l1: "lane (m_rng_idx s) [0] = elem (m_rng_idx s) [0]"
    by (rule lane_valid) (simp only: assms(5) v)
  have l2: "lane x [0] = elem x [0]" by (rule lane_valid) (simp only: assms(8) v)
  have l3: "lane cinv [0] = elem cinv [0]" by (rule lane_valid) (simp only: assms(7) v)
  from FSUMul_forward_shapes[OF f] assms(2,6) c'
  have p: "m_static s' = m_static s" "m_mode s' = m_mode s" "m_rng s' = m_rng s"
    "m_source_gen s' = m_source_gen s"
    "elem (m_rng_idx s') [0] = lane (m_rng_idx s) [0] + lane x [0]"
    "elem cinv' [0] = lane cinv [0] + (1 - lane x [0])"
    by auto
  show ?thesis using f so si c' sc p assms(1,2) by (simp add: l1 l2 l3)
qed

lemma FSUMul_run_scalar_counters:
  assumes "m_static s = True" "m_mode s = ''bipolar''" "m_rng s \<noteq> []"
    and "shape (m_source_gen s) = [1]" "shape (m_rng_idx s) = [1]"
    and "m_rng_idx_inv s = Some cinv" "shape cinv = [1]" "\<forall>x\<in>set xs. shape x = [1]"
  shows "\<exists>outs s' cinv'. FSUMul_run s xs = Inr (outs, s') \<and> length outs = length xs
     \<and> shape (m_rng_idx s') = [1] \<and> m_rng_idx_inv s' = Some cinv' \<and> shape cinv' = [1]
     \<and> elem (m_rng_idx s') [0] = elem (m_rng_idx s) [0] + (\<Sum>x\<leftarrow>xs. elem x [0])
     \<and> elem cinv' [0] = elem cinv [0] + (\<Sum>x\<leftarrow>xs. 1 - elem x [0])"
  using assms
proof (induction xs arbitrary: s cinv)
  case Nil
  then show ?case by simp
next
  case (Cons x xs)
  from Cons.prems have x: "shape x = [1]" and xs: "\<forall>x\<in>set xs. shape x = [1]" by simp_all
  from FSUMul_forward_scalar_step[OF Cons.prems(1-7) x]
  obtain out s1 cinv1 where f: "FSUMul_forward s x = Inr (out, s1)"
    and p: "m_static s1 = True" "m_mode s1 = ''bipolar''" "m_rng s1 \<noteq> []"
      "shape (m_source_gen s1) = [1]" "shape (m_rng_idx s1) = [1]"
      "m_rng_idx_inv s1 = Some cinv1" "shape cinv1 = [1]"
    and e: "elem (m_rng_idx s1) [0] = elem (m_rng_idx s) [0] + elem x [0]"
      "elem cinv1 [0] = elem cinv [0] + (1 - elem x [0])"
    using Cons.prems(3,4) by auto
  from Cons.IH[OF p xs] obtain outs s' cinv' where
    r: "FSUMul_run s1 xs = Inr (outs, s')" and l: "length outs = length xs"
    and q: "shape (m_rng_idx s') = [1]" "m_rng_idx_inv s' = Some cinv'" "shape cinv' = [1]"
    and e': "elem (m_rng_idx s') [0] = elem (m_rng_idx s1) [0] + (\<Sum>x\<leftarrow>xs. elem x [0])"
      "elem cinv' [0] = elem cinv1 [0] + (\<Sum>x\<leftarrow>xs. 1 - elem x [0])"
    by blast
  show ?case using f r l q e e' by (simp add: ebind_Inr)
qed

lemma sum_list_complement:
  "(\<Sum>x\<leftarrow>xs. f x) + (\<Sum>x\<leftarrow>xs. 1 - f x) = int (length xs)"
  by (induction xs) simp_all

text \<open>
  Claim C5. A static FSUMul whose magnitude has the shape of the input, with counters
  as constructed or as an earlier call left them, returns an output and counters of the
  shape of the input. For every forward call that returns: the instance is static; the
  shapes of the output and of the counters are the broadcast shapes; the counter
  \<open>rng_idx\<close> of every lane is its value before the call plus the input bit, so it moves
  only where the input bit is 1. In unipolar mode every output lane is the bitwise AND of
  the input bit and the bit that the generator emits for the static magnitude at the
  counter as it stands before the call, and nothing else changes. In bipolar mode the
  second counter \<open>rng_idx_inv\<close> feeds the same generator, whose bit is complemented; it
  grows by the complement of the input bit, so it moves only where the input bit is 0,
  and the output is the OR of the two path bits.
\<close>

theorem FSUMul_static_forward:
  "(m_static st = True \<and> m_rng st \<noteq> [] \<and> shape (m_source_gen st) = shape x
      \<and> shape x \<noteq> [] \<and> (shape (m_rng_idx st) = [1] \<or> shape (m_rng_idx st) = shape x)
      \<and> (m_mode st = ''unipolar''
          \<or> m_mode st = ''bipolar''
            \<and> (\<exists>cinv. m_rng_idx_inv st = Some cinv
                  \<and> (shape cinv = [1] \<or> shape cinv = shape x))) \<longrightarrow>
      (\<exists>out' st''. FSUMul_forward st x = Inr (out', st'') \<and> shape out' = shape x
         \<and> shape (m_rng_idx st'') = shape x))
   \<and> (FSUMul_forward st x = Inr (out, st') \<longrightarrow>
        m_static st = True
      \<and> m_static st' = m_static st \<and> m_mode st' = m_mode st \<and> m_rng st' = m_rng st
      \<and> m_source_gen st' = m_source_gen st
      \<and> bshape (shape (m_rng_idx st)) (shape x) = Some (shape (m_rng_idx st'))
      \<and> (\<forall>idx. elem (m_rng_idx st') idx = lane (m_rng_idx st) idx + lane x idx)
      \<and> (m_mode st = ''unipolar'' \<longrightarrow>
            m_rng_idx_inv st' = m_rng_idx_inv st
          \<and> (\<exists>B. bshape (shape (m_source_gen st)) (shape (m_rng_idx st)) = Some B
                \<and> bshape (shape x) B = Some (shape out))
          \<and> (\<forall>idx. valid_idx (shape out) idx \<longrightarrow>
                elem out idx =
                  lane x idx
                    AND bs_bit (m_rng st) (lane (m_source_gen st) idx) (lane (m_rng_idx st) idx)))
      \<and> (m_mode st = ''bipolar'' \<longrightarrow>
            (\<exists>cinv cinv'. m_rng_idx_inv st = Some cinv \<and> m_rng_idx_inv st' = Some cinv'
               \<and> bshape (shape cinv) (shape x) = Some (shape cinv')
               \<and> (\<forall>idx. elem cinv' idx = lane cinv idx + (1 - lane x idx))
               \<and> (\<exists>B P B' P'.
                     bshape (shape (m_source_gen st)) (shape (m_rng_idx st)) = Some B
                   \<and> bshape (shape x) B = Some P
                   \<and> bshape (shape (m_source_gen st)) (shape cinv) = Some B'
                   \<and> bshape (shape x) B' = Some P'
                   \<and> bshape P P' = Some (shape out))
               \<and> (\<forall>idx. valid_idx (shape out) idx \<longrightarrow>
                     elem out idx =
                       (lane x idx
                          AND bs_bit (m_rng st) (lane (m_source_gen st) idx)
                                (lane (m_rng_idx st) idx))
                       OR ((1 - lane x idx)
                           AND (1 - bs_bit (m_rng st) (lane (m_source_gen st) idx)
                                      (lane cinv idx)))))))"
proof (intro conjI impI)
  assume h: "m_static st = True \<and> m_rng st \<noteq> [] \<and> shape (m_source_gen st) = shape x
      \<and> shape x \<noteq> [] \<and> (shape (m_rng_idx st) = [1] \<or> shape (m_rng_idx st) = shape x)
      \<and> (m_mode st = ''unipolar''
          \<or> m_mode st = ''bipolar''
            \<and> (\<exists>cinv. m_rng_idx_inv st = Some cinv
                  \<and> (shape cinv = [1] \<or> shape cinv = shape x)))"
  then have a: "m_static st = True" "m_rng st \<noteq> []" "shape (m_source_gen st) = shape x"
    "shape x \<noteq> []" "shape (m_rng_idx st) = [1] \<or> shape (m_rng_idx st) = shape x"
    and m: "m_mode st = ''unipolar''
          \<or> m_mode st = ''bipolar''
            \<and> (\<exists>cinv. m_rng_idx_inv st = Some cinv
                  \<and> (shape cinv = [1] \<or> shape cinv = shape x))"
    by simp_all
  from m show "\<exists>out' st''. FSUMul_forward st x = Inr (out', st'') \<and> shape out' = shape x
         \<and> shape (m_rng_idx st'') = shape x"
  proof
    assume "m_mode st = ''unipolar''"
    from FSUMul_forward_returns_unipolar[OF a(1,2) this a(3,4,5)] show ?thesis .
  next
    assume "m_mode st = ''bipolar''
            \<and> (\<exists>cinv. m_rng_idx_inv st = Some cinv
                  \<and> (shape cinv = [1] \<or> shape cinv = shape x))"
    then obtain cinv where b: "m_mode st = ''bipolar''" "m_rng_idx_inv st = Some cinv"
      "shape cinv = [1] \<or> shape cinv = shape x" by blast
    from FSUMul_forward_returns_bipolar[OF a(1,2) b(1) a(3,4,5) b(2,3)] show ?thesis by blast
  qed
next
  assume ok: "FSUMul_forward st x = Inr (out, st')"
  note s = FSUMul_forward_shapes[OF ok]
  show "m_static st = True" using ok by (rule FSUMul_forward_static)
  show "m_static st' = m_static st" "m_mode st' = m_mode st" "m_rng st' = m_rng st"
    "m_source_gen st' = m_source_gen st"
    "bshape (shape (m_rng_idx st)) (shape x) = Some (shape (m_rng_idx st'))"
    "\<forall>idx. elem (m_rng_idx st') idx = lane (m_rng_idx st) idx + lane x idx"
    using s by simp_all
  {
    assume m: "m_mode st = ''unipolar''"
    show "m_rng_idx_inv st' = m_rng_idx_inv st" using s m by simp
    show "\<exists>B. bshape (shape (m_source_gen st)) (shape (m_rng_idx st)) = Some B
                \<and> bshape (shape x) B = Some (shape out)" using s m by simp
    show "\<forall>idx. valid_idx (shape out) idx \<longrightarrow>
                elem out idx =
                  lane x idx
                    AND bs_bit (m_rng st) (lane (m_source_gen st) idx) (lane (m_rng_idx st) idx)"
      using FSUMul_forward_unipolar[OF ok m] by simp
  }
  {
    assume m: "m_mode st = ''bipolar''"
    from s m obtain cinv cinv' where c: "m_rng_idx_inv st = Some cinv"
      "m_rng_idx_inv st' = Some cinv'"
      "bshape (shape cinv) (shape x) = Some (shape cinv')"
      "\<forall>idx. elem cinv' idx = lane cinv idx + (1 - lane x idx)"
      and sh: "\<exists>B P B' P'.
                     bshape (shape (m_source_gen st)) (shape (m_rng_idx st)) = Some B
                   \<and> bshape (shape x) B = Some P
                   \<and> bshape (shape (m_source_gen st)) (shape cinv) = Some B'
                   \<and> bshape (shape x) B' = Some P'
                   \<and> bshape P P' = Some (shape out)"
      by blast
    have e: "elem out idx =
                       (lane x idx
                          AND bs_bit (m_rng st) (lane (m_source_gen st) idx)
                                (lane (m_rng_idx st) idx))
                       OR ((1 - lane x idx)
                           AND (1 - bs_bit (m_rng st) (lane (m_source_gen st) idx)
                                      (lane cinv idx)))"
      if v: "valid_idx (shape out) idx" for idx
      using FSUMul_forward_bipolar[OF ok m v] c(1) by auto
    show "\<exists>cinv cinv'. m_rng_idx_inv st = Some cinv \<and> m_rng_idx_inv st' = Some cinv'
               \<and> bshape (shape cinv) (shape x) = Some (shape cinv')
               \<and> (\<forall>idx. elem cinv' idx = lane cinv idx + (1 - lane x idx))
               \<and> (\<exists>B P B' P'.
                     bshape (shape (m_source_gen st)) (shape (m_rng_idx st)) = Some B
                   \<and> bshape (shape x) B = Some P
                   \<and> bshape (shape (m_source_gen st)) (shape cinv) = Some B'
                   \<and> bshape (shape x) B' = Some P'
                   \<and> bshape P P' = Some (shape out))
               \<and> (\<forall>idx. valid_idx (shape out) idx \<longrightarrow>
                     elem out idx =
                       (lane x idx
                          AND bs_bit (m_rng st) (lane (m_source_gen st) idx)
                                (lane (m_rng_idx st) idx))
                       OR ((1 - lane x idx)
                           AND (1 - bs_bit (m_rng st) (lane (m_source_gen st) idx)
                                      (lane cinv idx))))"
      using c sh e by blast
  }
qed

theorem FSUMul_static_forward_witness:
  "\<not> isl (FSUMul_forward (projr (FSUMul_init 2 ''unipolar'' True (tvec [2, 1]) [0, 2, 1, 3]))
            (tvec [1, 0]))
   \<and> shape (fst (projr (FSUMul_forward
        (projr (FSUMul_init 2 ''unipolar'' True (tvec [2, 1]) [0, 2, 1, 3])) (tvec [1, 0])))) = [2]
   \<and> elem (fst (projr (FSUMul_forward
        (projr (FSUMul_init 2 ''unipolar'' True (tvec [2, 1]) [0, 2, 1, 3])) (tvec [1, 0])))) [0] = 1
   \<and> elem (fst (projr (FSUMul_forward
        (projr (FSUMul_init 2 ''unipolar'' True (tvec [2, 1]) [0, 2, 1, 3])) (tvec [1, 0])))) [1] = 0
   \<and> elem (m_rng_idx (snd (projr (FSUMul_forward
        (projr (FSUMul_init 2 ''unipolar'' True (tvec [2, 1]) [0, 2, 1, 3])) (tvec [1, 0]))))) [0] = 1
   \<and> elem (m_rng_idx (snd (projr (FSUMul_forward
        (projr (FSUMul_init 2 ''unipolar'' True (tvec [2, 1]) [0, 2, 1, 3])) (tvec [1, 0]))))) [1] = 0
   \<and> \<not> isl (FSUMul_forward (projr (FSUMul_init 2 ''bipolar'' True (tvec [2, 0]) [0, 2, 1, 3]))
            (tvec [1, 0]))
   \<and> shape (fst (projr (FSUMul_forward
        (projr (FSUMul_init 2 ''bipolar'' True (tvec [2, 0]) [0, 2, 1, 3])) (tvec [1, 0])))) = [2]
   \<and> elem (fst (projr (FSUMul_forward
        (projr (FSUMul_init 2 ''bipolar'' True (tvec [2, 0]) [0, 2, 1, 3])) (tvec [1, 0])))) [0] = 1
   \<and> elem (fst (projr (FSUMul_forward
        (projr (FSUMul_init 2 ''bipolar'' True (tvec [2, 0]) [0, 2, 1, 3])) (tvec [1, 0])))) [1] = 1
   \<and> elem (m_rng_idx (snd (projr (FSUMul_forward
        (projr (FSUMul_init 2 ''bipolar'' True (tvec [2, 0]) [0, 2, 1, 3])) (tvec [1, 0]))))) [1] = 0
   \<and> elem (the (m_rng_idx_inv (snd (projr (FSUMul_forward
        (projr (FSUMul_init 2 ''bipolar'' True (tvec [2, 0]) [0, 2, 1, 3])) (tvec [1, 0])))))) [1] = 1"
proof -
  let ?x = "tvec [1, 0] :: int tensor"
  let ?st = "projr (FSUMul_init 2 ''unipolar'' True (tvec [2, 1]) [0, 2, 1, 3])"
  let ?r = "projr (FSUMul_forward ?st ?x)"
  note T = FSUMul_static_forward[of ?st ?x "fst ?r" "snd ?r"]
  have h: "m_static ?st = True \<and> m_rng ?st \<noteq> [] \<and> shape (m_source_gen ?st) = shape ?x
      \<and> shape ?x \<noteq> [] \<and> (shape (m_rng_idx ?st) = [1] \<or> shape (m_rng_idx ?st) = shape ?x)
      \<and> (m_mode ?st = ''unipolar''
          \<or> m_mode ?st = ''bipolar''
            \<and> (\<exists>cinv. m_rng_idx_inv ?st = Some cinv
                  \<and> (shape cinv = [1] \<or> shape cinv = shape ?x)))"
    by (simp add: FSUMul_init_def tvec_def tfull_def)
  from T[THEN conjunct1, THEN mp, OF h]
  obtain out' st'' where f: "FSUMul_forward ?st ?x = Inr (out', st'')"
    and so: "shape out' = shape ?x" by blast
  have ok: "FSUMul_forward ?st ?x = Inr (fst ?r, snd ?r)" by (simp add: f)
  have m: "m_mode ?st = ''unipolar''" by (simp add: FSUMul_init_def)
  note U = T[THEN conjunct2, THEN mp, OF ok]
  have sx: "shape ?x = [2]" by (simp add: tvec_def)
  have so': "shape (fst ?r) = [2]" using so sx by (simp add: f)
  have v0: "valid_idx (shape (fst ?r)) [0]" and v1: "valid_idx (shape (fst ?r)) [1]"
    by (simp_all add: so' valid_idx_def)
  have c0: "lane (m_rng_idx ?st) [0] + lane ?x [0] = 1" by code_simp
  have c1: "lane (m_rng_idx ?st) [1] + lane ?x [1] = 0" by code_simp
  have e0: "lane ?x [0]
      AND bs_bit (m_rng ?st) (lane (m_source_gen ?st) [0]) (lane (m_rng_idx ?st) [0]) = 1"
    by code_simp
  have e1: "lane ?x [1]
      AND bs_bit (m_rng ?st) (lane (m_source_gen ?st) [1]) (lane (m_rng_idx ?st) [1]) = 0"
    by code_simp
  from U have i: "\<forall>idx. elem (m_rng_idx (snd ?r)) idx = lane (m_rng_idx ?st) idx + lane ?x idx"
    by blast
  from U m have o: "\<forall>idx. valid_idx (shape (fst ?r)) idx \<longrightarrow>
                elem (fst ?r) idx =
                  lane ?x idx
                    AND bs_bit (m_rng ?st) (lane (m_source_gen ?st) idx) (lane (m_rng_idx ?st) idx)"
    by blast
  have u: "elem (fst ?r) [0] = 1" "elem (fst ?r) [1] = 0"
    "elem (m_rng_idx (snd ?r)) [0] = 1" "elem (m_rng_idx (snd ?r)) [1] = 0"
    using o v0 v1 e0 e1 i c0 c1 by simp_all
  let ?sb = "projr (FSUMul_init 2 ''bipolar'' True (tvec [2, 0]) [0, 2, 1, 3])"
  let ?rb = "projr (FSUMul_forward ?sb ?x)"
  note Tb = FSUMul_static_forward[of ?sb ?x "fst ?rb" "snd ?rb"]
  have hb: "m_static ?sb = True \<and> m_rng ?sb \<noteq> [] \<and> shape (m_source_gen ?sb) = shape ?x
      \<and> shape ?x \<noteq> [] \<and> (shape (m_rng_idx ?sb) = [1] \<or> shape (m_rng_idx ?sb) = shape ?x)
      \<and> (m_mode ?sb = ''unipolar''
          \<or> m_mode ?sb = ''bipolar''
            \<and> (\<exists>cinv. m_rng_idx_inv ?sb = Some cinv
                  \<and> (shape cinv = [1] \<or> shape cinv = shape ?x)))"
    by (simp add: FSUMul_init_def tvec_def tfull_def)
  from Tb[THEN conjunct1, THEN mp, OF hb]
  obtain outb stb where fb: "FSUMul_forward ?sb ?x = Inr (outb, stb)"
    and sob: "shape outb = shape ?x" by blast
  have okb: "FSUMul_forward ?sb ?x = Inr (fst ?rb, snd ?rb)" by (simp add: fb)
  have mb: "m_mode ?sb = ''bipolar''" by (simp add: FSUMul_init_def)
  note Ub = Tb[THEN conjunct2, THEN mp, OF okb]
  have sob': "shape (fst ?rb) = [2]" using sob sx by (simp add: fb)
  have w0: "valid_idx (shape (fst ?rb)) [0]" and w1: "valid_idx (shape (fst ?rb)) [1]"
    by (simp_all add: sob' valid_idx_def)
  have ci: "m_rng_idx_inv ?sb = Some (tfull [1] 0)" by (simp add: FSUMul_init_def)
  from Ub mb ci obtain cinv' where c': "m_rng_idx_inv (snd ?rb) = Some cinv'"
    and ec: "\<forall>idx. elem cinv' idx = lane (tfull [1] 0) idx + (1 - lane ?x idx)"
    and ob: "\<forall>idx. valid_idx (shape (fst ?rb)) idx \<longrightarrow>
                     elem (fst ?rb) idx =
                       (lane ?x idx
                          AND bs_bit (m_rng ?sb) (lane (m_source_gen ?sb) idx)
                                (lane (m_rng_idx ?sb) idx))
                       OR ((1 - lane ?x idx)
                           AND (1 - bs_bit (m_rng ?sb) (lane (m_source_gen ?sb) idx)
                                      (lane (tfull [1] 0) idx)))"
    by auto
  from Ub have ib: "\<forall>idx. elem (m_rng_idx (snd ?rb)) idx = lane (m_rng_idx ?sb) idx + lane ?x idx"
    by blast
  have g0: "(lane ?x [0]
               AND bs_bit (m_rng ?sb) (lane (m_source_gen ?sb) [0]) (lane (m_rng_idx ?sb) [0]))
            OR ((1 - lane ?x [0])
                AND (1 - bs_bit (m_rng ?sb) (lane (m_source_gen ?sb) [0])
                           (lane (tfull [1] 0) [0]))) = 1"
    by code_simp
  have g1: "(lane ?x [1]
               AND bs_bit (m_rng ?sb) (lane (m_source_gen ?sb) [1]) (lane (m_rng_idx ?sb) [1]))
            OR ((1 - lane ?x [1])
                AND (1 - bs_bit (m_rng ?sb) (lane (m_source_gen ?sb) [1])
                           (lane (tfull [1] 0) [1]))) = 1"
    by code_simp
  have d1: "lane (m_rng_idx ?sb) [1] + lane ?x [1] = 0" by code_simp
  have d2: "lane (tfull [1] (0::int)) [1] + (1 - lane ?x [1]) = 1" by code_simp
  have ub: "elem (fst ?rb) [0] = 1" "elem (fst ?rb) [1] = 1"
    "elem (m_rng_idx (snd ?rb)) [1] = 0" "elem (the (m_rng_idx_inv (snd ?rb))) [1] = 1"
    using ob w0 w1 g0 g1 ib d1 ec d2 c' by simp_all
  show ?thesis using f so' u fb sob' ub by simp
qed

text \<open>
  Claim C10. In static bipolar mode the two counters partition time. A forward call on
  a one-element input, from a state with one-element magnitude and counters, returns
  and leaves \<open>rng_idx\<close> at its value plus the input bit and \<open>rng_idx_inv\<close> at its value
  plus the complement of the input bit. From the constructed instance every run of such
  calls returns, \<open>rng_idx\<close> is then the sum of the input bits, \<open>rng_idx_inv\<close> the sum of
  their complements, and the two add up to the number of calls made. For inputs of any
  shape the two counters of every lane add up to the number of calls after every run
  that returns.
\<close>

theorem FSUMul_bipolar_counters_partition_time:
  assumes "FSUMul_init bw ''bipolar'' True source rng_seq = Inr st0"
  shows "(m_static s = True \<and> m_mode s = ''bipolar'' \<and> m_rng s \<noteq> []
            \<and> shape (m_source_gen s) = [1] \<and> shape (m_rng_idx s) = [1]
            \<and> m_rng_idx_inv s = Some c \<and> shape c = [1] \<and> shape x = [1] \<longrightarrow>
            (\<exists>out s' c'. FSUMul_forward s x = Inr (out, s') \<and> shape out = [1]
               \<and> m_static s' = True \<and> m_mode s' = ''bipolar'' \<and> m_rng s' = m_rng s
               \<and> m_source_gen s' = m_source_gen s \<and> shape (m_rng_idx s') = [1]
               \<and> m_rng_idx_inv s' = Some c' \<and> shape c' = [1]
               \<and> elem (m_rng_idx s') [0] = elem (m_rng_idx s) [0] + elem x [0]
               \<and> elem c' [0] = elem c [0] + (1 - elem x [0])))
         \<and> (rng_seq \<noteq> [] \<and> shape source = [1] \<and> (\<forall>x\<in>set xs. shape x = [1]) \<longrightarrow>
            (\<exists>outs' st' cinv'. FSUMul_run st0 xs = Inr (outs', st')
               \<and> length outs' = length xs \<and> shape (m_rng_idx st') = [1]
               \<and> m_rng_idx_inv st' = Some cinv' \<and> shape cinv' = [1]
               \<and> elem (m_rng_idx st') [0] = (\<Sum>x\<leftarrow>xs. elem x [0])
               \<and> elem cinv' [0] = (\<Sum>x\<leftarrow>xs. 1 - elem x [0])
               \<and> elem (m_rng_idx st') [0] + elem cinv' [0] = int (length xs)))
         \<and> (FSUMul_run st0 xs = Inr (outs, st) \<and> valid_idx (shape (m_rng_idx st)) idx \<longrightarrow>
            (\<exists>cinv. m_rng_idx_inv st = Some cinv \<and> shape cinv = shape (m_rng_idx st)
               \<and> elem (m_rng_idx st) idx + elem cinv idx = int (length xs)))"
proof -
  from assms have st0: "st0 = \<lparr>m_bitwidth = bw, m_mode = ''bipolar'', m_static = True,
       m_source_gen = source, m_rng = rng_seq, m_rng_idx = tfull [1] 0,
       m_rng_idx_inv = Some (tfull [1] 0)\<rparr>"
    by (simp add: FSUMul_init_def)
  have p: "\<exists>out s' c'. FSUMul_forward s x = Inr (out, s') \<and> shape out = [1]
               \<and> m_static s' = True \<and> m_mode s' = ''bipolar'' \<and> m_rng s' = m_rng s
               \<and> m_source_gen s' = m_source_gen s \<and> shape (m_rng_idx s') = [1]
               \<and> m_rng_idx_inv s' = Some c' \<and> shape c' = [1]
               \<and> elem (m_rng_idx s') [0] = elem (m_rng_idx s) [0] + elem x [0]
               \<and> elem c' [0] = elem c [0] + (1 - elem x [0])"
    if "m_static s = True \<and> m_mode s = ''bipolar'' \<and> m_rng s \<noteq> []
            \<and> shape (m_source_gen s) = [1] \<and> shape (m_rng_idx s) = [1]
            \<and> m_rng_idx_inv s = Some c \<and> shape c = [1] \<and> shape x = [1]"
    using that by (intro FSUMul_forward_scalar_step) simp_all
  have a: "\<exists>cinv. m_rng_idx_inv st = Some cinv \<and> shape cinv = shape (m_rng_idx st)
               \<and> elem (m_rng_idx st) idx + elem cinv idx = int (length xs)"
    if run: "FSUMul_run st0 xs = Inr (outs, st)" and v: "valid_idx (shape (m_rng_idx st)) idx"
  proof -
    have "\<exists>cinv'. m_rng_idx_inv st = Some cinv' \<and> shape cinv' = shape (m_rng_idx st)
       \<and> (\<forall>idx. valid_idx (shape (m_rng_idx st)) idx \<longrightarrow>
           elem (m_rng_idx st) idx + elem cinv' idx = 0 + int (length xs))"
      by (rule FSUMul_run_counters[OF run, of "tfull [1] 0"]) (simp_all add: st0 tfull_def)
    then show ?thesis using v by auto
  qed
  have b: "\<exists>outs' st' cinv'. FSUMul_run st0 xs = Inr (outs', st')
               \<and> length outs' = length xs \<and> shape (m_rng_idx st') = [1]
               \<and> m_rng_idx_inv st' = Some cinv' \<and> shape cinv' = [1]
               \<and> elem (m_rng_idx st') [0] = (\<Sum>x\<leftarrow>xs. elem x [0])
               \<and> elem cinv' [0] = (\<Sum>x\<leftarrow>xs. 1 - elem x [0])
               \<and> elem (m_rng_idx st') [0] + elem cinv' [0] = int (length xs)"
    if h: "rng_seq \<noteq> []" "shape source = [1]" "\<forall>x\<in>set xs. shape x = [1]"
  proof -
    have "\<exists>outs s' cinv'. FSUMul_run st0 xs = Inr (outs, s') \<and> length outs = length xs
     \<and> shape (m_rng_idx s') = [1] \<and> m_rng_idx_inv s' = Some cinv' \<and> shape cinv' = [1]
     \<and> elem (m_rng_idx s') [0] = elem (m_rng_idx st0) [0] + (\<Sum>x\<leftarrow>xs. elem x [0])
     \<and> elem cinv' [0] = elem (tfull [1] (0::int)) [0] + (\<Sum>x\<leftarrow>xs. 1 - elem x [0])"
      by (rule FSUMul_run_scalar_counters[of st0 "tfull [1] 0"]) (simp_all add: st0 tfull_def h)
    then obtain outs' st' cinv' where r: "FSUMul_run st0 xs = Inr (outs', st')"
      "length outs' = length xs" "shape (m_rng_idx st') = [1]"
      "m_rng_idx_inv st' = Some cinv'" "shape cinv' = [1]"
      and e: "elem (m_rng_idx st') [0] = (\<Sum>x\<leftarrow>xs. elem x [0])"
        "elem cinv' [0] = (\<Sum>x\<leftarrow>xs. 1 - elem x [0])"
      by (auto simp: st0 tfull_def)
    have "elem (m_rng_idx st') [0] + elem cinv' [0] = int (length xs)"
      unfolding e by (rule sum_list_complement)
    then show ?thesis using r e by simp
  qed
  show ?thesis using p a b by blast
qed

theorem FSUMul_bipolar_counters_partition_time_witness:
  "\<not> isl (FSUMul_forward (projr (FSUMul_init 2 ''bipolar'' True (tfull [1] 2) [0, 2, 1, 3]))
            (tvec [1]))
   \<and> elem (m_rng_idx (snd (projr (FSUMul_forward
        (projr (FSUMul_init 2 ''bipolar'' True (tfull [1] 2) [0, 2, 1, 3])) (tvec [1]))))) [0] = 1
   \<and> elem (the (m_rng_idx_inv (snd (projr (FSUMul_forward
        (projr (FSUMul_init 2 ''bipolar'' True (tfull [1] 2) [0, 2, 1, 3])) (tvec [1])))))) [0] = 0
   \<and> \<not> isl (FSUMul_run (projr (FSUMul_init 2 ''bipolar'' True (tfull [1] 2) [0, 2, 1, 3]))
              [tvec [1], tvec [0], tvec [0]])
   \<and> elem (m_rng_idx (snd (projr
        (FSUMul_run (projr (FSUMul_init 2 ''bipolar'' True (tfull [1] 2) [0, 2, 1, 3]))
              [tvec [1], tvec [0], tvec [0]])))) [0] = 1
   \<and> elem (the (m_rng_idx_inv (snd (projr
        (FSUMul_run (projr (FSUMul_init 2 ''bipolar'' True (tfull [1] 2) [0, 2, 1, 3]))
              [tvec [1], tvec [0], tvec [0]]))))) [0] = 2
   \<and> elem (m_rng_idx (snd (projr
        (FSUMul_run (projr (FSUMul_init 2 ''bipolar'' True (tfull [1] 2) [0, 2, 1, 3]))
              [tvec [1], tvec [0], tvec [0]])))) [0]
     + elem (the (m_rng_idx_inv (snd (projr
        (FSUMul_run (projr (FSUMul_init 2 ''bipolar'' True (tfull [1] 2) [0, 2, 1, 3]))
              [tvec [1], tvec [0], tvec [0]]))))) [0] = 3"
proof -
  let ?st0 = "projr (FSUMul_init 2 ''bipolar'' True (tfull [1] 2) [0, 2, 1, 3])"
  let ?xs = "[tvec [1], tvec [0], tvec [0 :: int]]"
  let ?x = "tvec [1] :: int tensor"
  have i: "FSUMul_init 2 ''bipolar'' True (tfull [1] 2) [0, 2, 1, 3] = Inr ?st0"
    by (simp add: FSUMul_init_def)
  note T = FSUMul_bipolar_counters_partition_time[OF i]
  have h1: "m_static ?st0 = True \<and> m_mode ?st0 = ''bipolar'' \<and> m_rng ?st0 \<noteq> []
            \<and> shape (m_source_gen ?st0) = [1] \<and> shape (m_rng_idx ?st0) = [1]
            \<and> m_rng_idx_inv ?st0 = Some (tfull [1] 0) \<and> shape (tfull [1] (0::int)) = [1]
            \<and> shape ?x = [1]"
    by (simp add: FSUMul_init_def tfull_def tvec_def)
  from T[of ?st0 "tfull [1] 0" ?x, THEN conjunct1, THEN mp, OF h1]
  obtain out s' c' where f: "FSUMul_forward ?st0 ?x = Inr (out, s')"
    and c: "m_rng_idx_inv s' = Some c'"
    and e: "elem (m_rng_idx s') [0] = elem (m_rng_idx ?st0) [0] + elem ?x [0]"
      "elem c' [0] = elem (tfull [1] (0::int)) [0] + (1 - elem ?x [0])"
    by blast
  have k: "elem (m_rng_idx ?st0) [0] + elem ?x [0] = 1"
    "elem (tfull [1] (0::int)) [0] + (1 - elem ?x [0]) = 0"
    by (simp_all add: FSUMul_init_def tfull_def tvec_def)
  have h2: "[0, 2, 1, 3] \<noteq> ([] :: int list) \<and> shape (tfull [1] (2::real)) = [1]
      \<and> (\<forall>x\<in>set ?xs. shape x = [1])"
    by (simp add: tfull_def tvec_def)
  from T[of _ _ _ ?xs, THEN conjunct2, THEN conjunct1, THEN mp, OF h2]
  obtain outs' st' cinv' where run: "FSUMul_run ?st0 ?xs = Inr (outs', st')"
    and ci: "m_rng_idx_inv st' = Some cinv'"
    and s: "elem (m_rng_idx st') [0] = (\<Sum>x\<leftarrow>?xs. elem x [0])"
      "elem cinv' [0] = (\<Sum>x\<leftarrow>?xs. 1 - elem x [0])"
      "elem (m_rng_idx st') [0] + elem cinv' [0] = int (length ?xs)"
    by blast
  have t: "(\<Sum>x\<leftarrow>?xs. elem x [0]) = 1" "(\<Sum>x\<leftarrow>?xs. 1 - elem x [0]) = 2"
    by (simp_all add: tvec_def)
  show ?thesis using f c e k run ci s t by simp
qed

section \<open>Properties: FSULinearPC\<close>

text \<open>
  Claim C4, on the code. The constructor's test \<^verbatim>\<open>hwcfg["rng"].lower() == "race" or "tc"\<close>
  is truthy for every rng kind, so an instance built with "Sobol" has \<open>wtc = True\<close> and
  its forward call advances the weight counters of a lane whose input bit is 0, where
  the rate-coded policy \<open>FSULinear_PC_wrc\<close>, which forward never reaches, stalls them.
\<close>

lemma FSULinearPC_wtc_always:
  "FSULinearPC_init i out b we be hm hr w0 b0 bg wr br = Inr st \<Longrightarrow> pc_wtc st = True"
  by (auto simp: FSULinearPC_init_def Let_def ebind_eq_Inr py_truthy_def py_or_def
      split: if_splits option.splits prod.splits)

theorem FSULinearPC_sobol_advances_unconditionally:
  "map_sum id pc_wtc
     (FSULinearPC_init 2 1 False (Some (tmat 1 2 [[2, 3]])) None ''unipolar'' ''Sobol''
        (tfull [1, 2] 0) (tfull [1] 0) (\<lambda>t. t) [0, 2, 1, 3] [0, 2, 1, 3]) = Inr True
   \<and> map_sum id (\<lambda>(out, st'). map (\<lambda>i. elem (pc_wrdx_i1 st') [0, 0, i]) [0, 1])
       (ebind (FSULinearPC_init 2 1 False (Some (tmat 1 2 [[2, 3]])) None ''unipolar'' ''Sobol''
                 (tfull [1, 2] 0) (tfull [1] 0) (\<lambda>t. t) [0, 2, 1, 3] [0, 2, 1, 3])
          (\<lambda>st. FSULinearPC_forward st (tmat 1 2 [[0, 1]]))) = Inr [1, 1]
   \<and> map_sum id (\<lambda>(out, st'). map (\<lambda>i. elem (pc_wrdx_i1 st') [0, 0, i]) [0, 1])
       (ebind (FSULinearPC_init 2 1 False (Some (tmat 1 2 [[2, 3]])) None ''unipolar'' ''Sobol''
                 (tfull [1, 2] 0) (tfull [1] 0) (\<lambda>t. t) [0, 2, 1, 3] [0, 2, 1, 3])
          (\<lambda>st. FSULinear_PC_wrc st (tmat 1 2 [[0, 1]]))) = Inr [0, 1]"
  by code_simp

section \<open>Properties: UnaryReLU with the shift register\<close>

lemma UnaryReLU_init_rc_sr:
  assumes "UnaryReLU_init depth bw ''RC'' True = Inr st"
  shows "depth \<le> 127 \<and> r_encode st = ''RC'' \<and> r_sr st = True \<and> r_init st = True
     \<and> r_depth_half st = real_of_int depth / 2
     \<and> r_shiftreg st = ShiftReg_init (nat depth) \<and> r_sr_cnt st = tfull [1] 0"
  using assms
  by (auto simp: UnaryReLU_init_def Let_def ebind_def split: if_splits)

lemma shape_tfull: "shape (tfull sh v) = sh"
  by (simp add: tfull_def)

lemma tzip_one_left:
  "shape a = [1] \<Longrightarrow> shape b \<noteq> [] \<Longrightarrow>
     tzip f a b = Inr \<lparr>shape = shape b, elem = (\<lambda>idx. f (lane a idx) (lane b idx))\<rparr>"
  using bshape_one1[of "shape b"] by (simp add: tzip_def lane_def)

lemma take_push_zero:
  "0 < n \<Longrightarrow> take n ((1::int) # replicate n 0) = 1 # replicate (n - 1) 0"
proof -
  assume "0 < n"
  then obtain m where n: "n = Suc m" by (cases n) auto
  have "take m (replicate (Suc m) (0::int)) = replicate m 0"
    by (simp only: take_replicate) simp
  then show ?thesis by (simp add: n)
qed

lemma ShiftReg_forward_same_shape:
  assumes "shape (sr_buf sr) = shape x"
  shows "ShiftReg_forward sr x =
     Inr ((\<lparr>shape = shape x, elem = (\<lambda>idx. last (lane x idx # lane (sr_buf sr) idx))\<rparr>,
           \<lparr>shape = shape x,
            elem = (\<lambda>idx. sum_list (take (sr_depth sr) (lane x idx # lane (sr_buf sr) idx)))\<rparr>),
          sr\<lparr>sr_buf := \<lparr>shape = shape x,
                 elem = (\<lambda>idx. take (sr_depth sr) (lane x idx # lane (sr_buf sr) idx))\<rparr>\<rparr>)"
  using assms
  by (simp add: ShiftReg_forward_def tzip_same_shape[OF assms] ebind_def tmap_def)

lemma ShiftReg_forward_first:
  assumes "shape x \<noteq> []"
  shows "ShiftReg_forward (ShiftReg_init n) x =
     Inr ((\<lparr>shape = shape x, elem = (\<lambda>idx. last (lane x idx # replicate n 0))\<rparr>,
           \<lparr>shape = shape x,
            elem = (\<lambda>idx. sum_list (take n (lane x idx # replicate n 0)))\<rparr>),
          \<lparr>sr_depth = n, sr_buf = \<lparr>shape = shape x,
                 elem = (\<lambda>idx. take n (lane x idx # replicate n 0))\<rparr>\<rparr>)"
proof -
  have s: "shape (sr_buf (ShiftReg_init n)) = [1]"
    by (simp add: ShiftReg_init_def shape_tfull)
  have l: "lane (sr_buf (ShiftReg_init n)) idx = replicate n 0" for idx
    by (simp add: ShiftReg_init_def lane_tfull)
  have d: "sr_depth (ShiftReg_init n) = n" by (simp add: ShiftReg_init_def)
  show ?thesis
    unfolding ShiftReg_forward_def tzip_one_left[OF s assms] l d
    by (simp add: ebind_def tmap_def ShiftReg_init_def)
qed

lemma UnaryReLU_forward_rc_sr_later:
  assumes "r_encode s = ''RC''" "r_sr s = True" "r_init s = False"
    and "tzip (OR) (tmap (\<lambda>c. if real_of_int c < r_depth_half s then (1::int) else 0)
                         (r_sr_cnt s)) x = Inr out"
    and "ShiftReg_forward (r_shiftreg s) out = Inr ((ev, cnt), sr')"
  shows "UnaryReLU_forward s x = Inr (Some out, s\<lparr>r_shiftreg := sr', r_sr_cnt := cnt\<rparr>)"
  by (simp add: UnaryReLU_forward_def UnaryReLU_forward_rc_sr_def ebind_def assms)

text \<open>
  Claim C8. With encode "RC" and the shift register (0 < depth \<le> 127), the first
  forward call after construction returns 1 in every element whatever the input is, and
  leaves in every lane a buffer led by a 1 with zeros behind it and a population count
  of 1. Every later call on an input of the same shape returns, in every lane, the
  input bit OR the flag (population count before the call < depth / 2); the buffer
  after the call is the emitted output pushed onto the buffer before it, cut to the
  depth, and the population count is the number of ones in that buffer.
\<close>

theorem UnaryReLU_rc_sr_forward:
  "(UnaryReLU_init depth bw ''RC'' True = Inr st \<and> 0 < depth \<and> shape input \<noteq> [] \<longrightarrow>
      (\<exists>out st'. UnaryReLU_forward st input = Inr (Some out, st')
         \<and> shape out = shape input \<and> (\<forall>idx. elem out idx = 1)
         \<and> r_encode st' = ''RC'' \<and> r_sr st' = True \<and> r_init st' = False
         \<and> r_depth_half st' = real_of_int depth / 2
         \<and> sr_depth (r_shiftreg st') = nat depth
         \<and> shape (sr_buf (r_shiftreg st')) = shape input
         \<and> shape (r_sr_cnt st') = shape input
         \<and> (\<forall>idx. elem (sr_buf (r_shiftreg st')) idx = 1 # replicate (nat depth - 1) 0
                \<and> elem (r_sr_cnt st') idx = 1)))
   \<and> (r_encode s = ''RC'' \<and> r_sr s = True \<and> r_init s = False
        \<and> shape (sr_buf (r_shiftreg s)) = shape x \<and> shape (r_sr_cnt s) = shape x \<longrightarrow>
      (\<exists>out s'. UnaryReLU_forward s x = Inr (Some out, s')
         \<and> shape out = shape x
         \<and> r_encode s' = ''RC'' \<and> r_sr s' = True \<and> r_init s' = False
         \<and> r_depth_half s' = r_depth_half s
         \<and> sr_depth (r_shiftreg s') = sr_depth (r_shiftreg s)
         \<and> shape (sr_buf (r_shiftreg s')) = shape x
         \<and> shape (r_sr_cnt s') = shape x
         \<and> (\<forall>idx. valid_idx (shape x) idx \<longrightarrow>
               elem out idx
                 = (if real_of_int (elem (r_sr_cnt s) idx) < r_depth_half s then 1 else 0)
                   OR elem x idx
             \<and> elem (sr_buf (r_shiftreg s')) idx
                 = take (sr_depth (r_shiftreg s)) (elem out idx # elem (sr_buf (r_shiftreg s)) idx)
             \<and> elem (r_sr_cnt s') idx = sum_list (elem (sr_buf (r_shiftreg s')) idx))))"
proof (intro conjI impI)
  assume h: "UnaryReLU_init depth bw ''RC'' True = Inr st \<and> 0 < depth \<and> shape input \<noteq> []"
  then have i: "UnaryReLU_init depth bw ''RC'' True = Inr st" and p: "0 < depth"
    and ne: "shape input \<noteq> []" by simp_all
  note f = UnaryReLU_init_rc_sr[OF i]
  let ?out = "tmap (\<lambda>x. 1::int) input"
  have so: "shape ?out \<noteq> []" using ne by (simp add: tmap_def)
  have lo: "lane ?out idx = 1" for idx by (simp add: lane_tmap)
  have n: "0 < nat depth" using p by simp
  show "\<exists>out st'. UnaryReLU_forward st input = Inr (Some out, st')
         \<and> shape out = shape input \<and> (\<forall>idx. elem out idx = 1)
         \<and> r_encode st' = ''RC'' \<and> r_sr st' = True \<and> r_init st' = False
         \<and> r_depth_half st' = real_of_int depth / 2
         \<and> sr_depth (r_shiftreg st') = nat depth
         \<and> shape (sr_buf (r_shiftreg st')) = shape input
         \<and> shape (r_sr_cnt st') = shape input
         \<and> (\<forall>idx. elem (sr_buf (r_shiftreg st')) idx = 1 # replicate (nat depth - 1) 0
                \<and> elem (r_sr_cnt st') idx = 1)"
    using f
    by (simp add: UnaryReLU_forward_def UnaryReLU_forward_rc_sr_def ebind_def
        ShiftReg_forward_first[OF so] lo take_push_zero[OF n] shape_tmap elem_tmap
        sum_list_replicate)
next
  assume h: "r_encode s = ''RC'' \<and> r_sr s = True \<and> r_init s = False
        \<and> shape (sr_buf (r_shiftreg s)) = shape x \<and> shape (r_sr_cnt s) = shape x"
  then have e: "r_encode s = ''RC''" and sr: "r_sr s = True" and ni: "r_init s = False"
    and sb: "shape (sr_buf (r_shiftreg s)) = shape x" and sc: "shape (r_sr_cnt s) = shape x"
    by simp_all
  let ?flag = "tmap (\<lambda>c. if real_of_int c < r_depth_half s then (1::int) else 0) (r_sr_cnt s)"
  let ?out = "\<lparr>shape = shape x, elem = (\<lambda>idx. lane ?flag idx OR lane x idx)\<rparr>"
  have sf: "shape ?flag = shape x" using sc by (simp add: shape_tmap)
  have z: "tzip (OR) ?flag x = Inr ?out"
    using tzip_same_shape[OF sf, of "(OR)"] sf by simp
  have sb': "shape (sr_buf (r_shiftreg s)) = shape ?out" using sb by simp
  have v: "lane ?out idx = elem ?out idx \<and> lane x idx = elem x idx
           \<and> lane (r_sr_cnt s) idx = elem (r_sr_cnt s) idx
           \<and> lane (sr_buf (r_shiftreg s)) idx = elem (sr_buf (r_shiftreg s)) idx"
    if "valid_idx (shape x) idx" for idx
    using that sb sc by (simp add: lane_valid)
  note fw = UnaryReLU_forward_rc_sr_later[OF e sr ni z ShiftReg_forward_same_shape[OF sb']]
  show "\<exists>out s'. UnaryReLU_forward s x = Inr (Some out, s')
         \<and> shape out = shape x
         \<and> r_encode s' = ''RC'' \<and> r_sr s' = True \<and> r_init s' = False
         \<and> r_depth_half s' = r_depth_half s
         \<and> sr_depth (r_shiftreg s') = sr_depth (r_shiftreg s)
         \<and> shape (sr_buf (r_shiftreg s')) = shape x
         \<and> shape (r_sr_cnt s') = shape x
         \<and> (\<forall>idx. valid_idx (shape x) idx \<longrightarrow>
               elem out idx
                 = (if real_of_int (elem (r_sr_cnt s) idx) < r_depth_half s then 1 else 0)
                   OR elem x idx
             \<and> elem (sr_buf (r_shiftreg s')) idx
                 = take (sr_depth (r_shiftreg s)) (elem out idx # elem (sr_buf (r_shiftreg s)) idx)
             \<and> elem (r_sr_cnt s') idx = sum_list (elem (sr_buf (r_shiftreg s')) idx))"
    unfolding fw using e sr ni v by (simp add: lane_tmap)
qed

theorem UnaryReLU_rc_sr_forward_witness:
  "\<not> isl (UnaryReLU_init 4 8 ''RC'' True)
   \<and> \<not> isl (UnaryReLU_forward (projr (UnaryReLU_init 4 8 ''RC'' True)) (tvec [0, 1]))
   \<and> elem (the (fst (projr (UnaryReLU_forward (projr (UnaryReLU_init 4 8 ''RC'' True))
                               (tvec [0, 1]))))) [0] = 1
   \<and> elem (r_sr_cnt (snd (projr (UnaryReLU_forward (projr (UnaryReLU_init 4 8 ''RC'' True))
                               (tvec [0, 1]))))) [0] = 1
   \<and> elem (sr_buf (r_shiftreg (snd (projr (UnaryReLU_forward
             (projr (UnaryReLU_init 4 8 ''RC'' True)) (tvec [0, 1])))))) [0] = [1, 0, 0, 0]
   \<and> \<not> isl (UnaryReLU_forward
        (snd (projr (UnaryReLU_forward
           (snd (projr (UnaryReLU_forward (projr (UnaryReLU_init 4 8 ''RC'' True))
                          (tvec [0, 1]))))
           (tvec [0, 1]))))
        (tvec [0, 1]))
   \<and> elem (the (fst (projr (UnaryReLU_forward
        (snd (projr (UnaryReLU_forward
           (snd (projr (UnaryReLU_forward (projr (UnaryReLU_init 4 8 ''RC'' True))
                          (tvec [0, 1]))))
           (tvec [0, 1]))))
        (tvec [0, 1]))))) [0] = 0
   \<and> elem (r_sr_cnt (snd (projr (UnaryReLU_forward
        (snd (projr (UnaryReLU_forward
           (snd (projr (UnaryReLU_forward (projr (UnaryReLU_init 4 8 ''RC'' True))
                          (tvec [0, 1]))))
           (tvec [0, 1]))))
        (tvec [0, 1]))))) [0] = 2"
proof -
  let ?x = "tvec [0, 1] :: int tensor"
  let ?st = "projr (UnaryReLU_init 4 8 ''RC'' True)"
  let ?s1 = "snd (projr (UnaryReLU_forward ?st ?x))"
  let ?s2 = "snd (projr (UnaryReLU_forward ?s1 ?x))"
  note T = UnaryReLU_rc_sr_forward[of 4 8 ?st ?x ?s2 ?x]
  have n0: "\<not> isl (UnaryReLU_init 4 8 ''RC'' True)" by code_simp
  then have i: "UnaryReLU_init 4 8 ''RC'' True = Inr ?st" by simp
  have p: "(0::int) < 4" by simp
  have ne: "shape ?x \<noteq> []" by (simp add: tvec_def)
  from T[THEN conjunct1, THEN mp, OF conjI[OF i conjI[OF p ne]]]
  obtain out st' where f: "UnaryReLU_forward ?st ?x = Inr (Some out, st')"
    and o: "\<forall>idx. elem out idx = 1"
    and b: "\<forall>idx. elem (sr_buf (r_shiftreg st')) idx = 1 # replicate (nat 4 - 1) 0
                \<and> elem (r_sr_cnt st') idx = 1"
    by blast
  have r: "1 # replicate (nat 4 - 1) 0 = [1, 0, 0, (0::int)]" by (simp add: numeral_eq_Suc)
  have h1: "r_encode ?s2 = ''RC''" by code_simp
  have h2: "r_sr ?s2 = True" by code_simp
  have h3: "r_init ?s2 = False" by code_simp
  have h4: "shape (sr_buf (r_shiftreg ?s2)) = shape ?x" by code_simp
  have h5: "shape (r_sr_cnt ?s2) = shape ?x" by code_simp
  from T[THEN conjunct2, THEN mp, OF conjI[OF h1 conjI[OF h2 conjI[OF h3 conjI[OF h4 h5]]]]]
  obtain out3 s3 where f3: "UnaryReLU_forward ?s2 ?x = Inr (Some out3, s3)"
    and e3: "\<forall>idx. valid_idx (shape ?x) idx \<longrightarrow>
               elem out3 idx
                 = (if real_of_int (elem (r_sr_cnt ?s2) idx) < r_depth_half ?s2 then 1 else 0)
                   OR elem ?x idx
             \<and> elem (sr_buf (r_shiftreg s3)) idx
                 = take (sr_depth (r_shiftreg ?s2)) (elem out3 idx # elem (sr_buf (r_shiftreg ?s2)) idx)
             \<and> elem (r_sr_cnt s3) idx = sum_list (elem (sr_buf (r_shiftreg s3)) idx)"
    by blast
  have v: "valid_idx (shape ?x) [0]" by code_simp
  have c: "(if real_of_int (elem (r_sr_cnt ?s2) [0]) < r_depth_half ?s2 then 1 else 0)
             OR elem ?x [0] = (0::int)" by code_simp
  have t: "sum_list (take (sr_depth (r_shiftreg ?s2)) (0 # elem (sr_buf (r_shiftreg ?s2)) [0]))
             = 2" by code_simp
  from e3 v c have o3: "elem out3 [0] = 0" by simp
  from e3 v have "elem (r_sr_cnt s3) [0]
     = sum_list (take (sr_depth (r_shiftreg ?s2)) (elem out3 [0] # elem (sr_buf (r_shiftreg ?s2)) [0]))"
    by simp
  then have c3: "elem (r_sr_cnt s3) [0] = 2" unfolding o3 t .
  show ?thesis unfolding f3 unfolding f using n0 o b r o3 c3 by simp
qed

section \<open>Properties: GainesAdd\<close>

lemma GainesAdd_init_acc_dim:
  "GainesAdd_init m s a rng_seq = Inr st \<Longrightarrow> g_acc_dim st = 0"
  by (auto simp: GainesAdd_init_def split: if_splits)

text \<open>
  Claim C6. A GainesAdd constructed with \<open>acc_dim = 1\<close> on the index sequence 0, 2, 1, 3
  and fed the 2 by 3 input with rows 1, 0, 1 and 0, 1, 1: the first call returns row 0
  of the input, the lane 0 along axis 0, and not the lane 0 along the accumulation axis 1,
  which is the column 1, 0; the index advances to 1. The second call, with index value
  2 below the size 3 of axis 1, raises the assertion, because 2 is not below the size 2
  of axis 0.
\<close>

theorem GainesAdd_selects_along_axis_0:
  "g_acc_dim (projr (GainesAdd_init ''unipolar'' True 1 [0, 2, 1, 3])) = 0
   \<and> \<not> isl (GainesAdd_forward (projr (GainesAdd_init ''unipolar'' True 1 [0, 2, 1, 3]))
              (tmat 2 3 [[1, 0, 1], [0, 1, 1]]))
   \<and> shape (fst (projr (GainesAdd_forward
        (projr (GainesAdd_init ''unipolar'' True 1 [0, 2, 1, 3]))
        (tmat 2 3 [[1, 0, 1], [0, 1, 1]])))) = [3]
   \<and> map (elem (fst (projr (GainesAdd_forward
        (projr (GainesAdd_init ''unipolar'' True 1 [0, 2, 1, 3]))
        (tmat 2 3 [[1, 0, 1], [0, 1, 1]]))))) [[0], [1], [2]] = [1, 0, 1]
   \<and> shape (tlane 1 0 (tmat 2 3 [[1, 0, 1], [0, 1, 1 :: real]])) = [2]
   \<and> map (elem (tlane 1 0 (tmat 2 3 [[1, 0, 1], [0, 1, 1 :: real]]))) [[0], [1]] = [1, 0]
   \<and> g_rng_idx (snd (projr (GainesAdd_forward
        (projr (GainesAdd_init ''unipolar'' True 1 [0, 2, 1, 3]))
        (tmat 2 3 [[1, 0, 1], [0, 1, 1]])))) = 1
   \<and> 2 < shape (tmat 2 3 [[1, 0, 1], [0, 1, 1 :: real]]) ! 1
   \<and> projl (GainesAdd_forward
        (snd (projr (GainesAdd_forward
           (projr (GainesAdd_init ''unipolar'' True 1 [0, 2, 1, 3]))
           (tmat 2 3 [[1, 0, 1], [0, 1, 1]]))))
        (tmat 2 3 [[1, 0, 1], [0, 1, 1]])) = AssertionError
   \<and> isl (GainesAdd_forward
        (snd (projr (GainesAdd_forward
           (projr (GainesAdd_init ''unipolar'' True 1 [0, 2, 1, 3]))
           (tmat 2 3 [[1, 0, 1], [0, 1, 1]]))))
        (tmat 2 3 [[1, 0, 1], [0, 1, 1]]))"
  by code_simp

section \<open>Properties: float32\<close>

lemma round_even_of_int: "round_even (real_of_int k) = k"
  by (simp add: round_even_def)

lemma ilog2_nat:
  assumes "2 ^ e \<le> x" "x < 2 ^ Suc e"
  shows "ilog2 x = int e"
proof -
  have x1: "1 \<le> x" using assms(1) one_le_power[of "2::real" e] by linarith
  let ?n = "nat \<lfloor>x\<rfloor>"
  have f0: "0 \<le> \<lfloor>x\<rfloor>" using x1 by simp
  have "(2::int) ^ e \<le> \<lfloor>x\<rfloor>"
  proof -
    have "real_of_int ((2::int) ^ e) \<le> x" using assms(1) by simp
    then show ?thesis by (simp only: le_floor_iff)
  qed
  then have lo: "2 ^ e \<le> ?n" using f0 by (simp add: le_nat_iff)
  have "\<lfloor>x\<rfloor> < (2::int) ^ Suc e"
  proof -
    have "x < real_of_int ((2::int) ^ Suc e)" using assms(2) by simp
    then show ?thesis by (simp only: floor_less_iff)
  qed
  then have hi: "?n < 2 ^ Suc e" using f0 by (simp add: nat_less_iff)
  have "floorlog 2 ?n \<le> Suc e" using hi by (intro floorlog_leI) simp_all
  moreover have "Suc e \<le> floorlog 2 ?n" using lo by (intro floorlog_geI) simp_all
  ultimately have "floorlog 2 ?n = Suc e" by simp
  then show ?thesis using x1 by (simp add: ilog2_def)
qed

lemma fl_round_at:
  assumes "2 ^ e \<le> \<bar>x\<bar>" "\<bar>x\<bar> < 2 ^ Suc e" "emin \<le> int e"
  shows "fl_round p emin x =
           real_of_int (round_even (x / pow2 (int e - int p + 1))) * pow2 (int e - int p + 1)"
proof -
  have "x \<noteq> 0"
  proof
    assume "x = 0"
    with assms(1) have "(2::real) ^ e \<le> 0" by simp
    moreover have "(0::real) < 2 ^ e" by (rule zero_less_power) simp
    ultimately show False by linarith
  qed
  moreover have "ilog2 \<bar>x\<bar> = int e" using assms(1,2) by (rule ilog2_nat)
  ultimately show ?thesis using assms(3) by (simp add: fl_round_def Let_def max_def)
qed

lemma f32_nat:
  assumes "n \<le> 2 ^ 24"
  shows "f32 (real n) = real n"
proof (cases "n = 0")
  case True
  then show ?thesis by (simp add: f32_def fl_round_def)
next
  case False
  define w where "w = floorlog 2 n"
  have w: "2 ^ (w - 1) \<le> n" "n < 2 ^ w" using floorlog_bounds[of n 2] False by (simp_all add: w_def)
  have w0: "0 < w" using False by (simp add: w_def floorlog_def)
  define e where "e = w - 1"
  have we: "w = Suc e" using w0 by (simp add: e_def)
  have lo: "(2::real) ^ e \<le> \<bar>real n\<bar>"
  proof -
    have "real ((2::nat) ^ e) \<le> real n" using w(1) unfolding e_def by (simp only: of_nat_le_iff)
    then show ?thesis by simp
  qed
  have hi: "\<bar>real n\<bar> < (2::real) ^ Suc e"
  proof -
    have "real n < real ((2::nat) ^ Suc e)" using w(2) unfolding we by (simp only: of_nat_less_iff)
    then show ?thesis by simp
  qed
  have "(2::nat) ^ e \<le> 2 ^ 24" using w(1) assms unfolding e_def by linarith
  then have e24: "e \<le> 24" by (simp only: power_increasing_iff[of "2::nat"] one_less_numeral_iff semiring_norm)
  have r: "f32 (real n) =
           real_of_int (round_even (real n / pow2 (int e - 23))) * pow2 (int e - 23)"
    unfolding f32_def using fl_round_at[OF lo hi, of "- 126" 24] by simp
  show ?thesis
  proof (cases "e \<le> 23")
    case True
    have p: "pow2 (int e - 23) = 1 / 2 ^ (23 - e)"
    proof (cases "e = 23")
      case True
      then show ?thesis by (simp add: pow2_def)
    next
      case False
      then have "int e - 23 < 0" using True by simp
      moreover have "nat (23 - int e) = 23 - e" by simp
      ultimately show ?thesis by (simp add: pow2_def)
    qed
    have "real n / pow2 (int e - 23) = real_of_int (int n * 2 ^ (23 - e))"
      by (simp add: p)
    then have "round_even (real n / pow2 (int e - 23)) = int n * 2 ^ (23 - e)"
      by (simp only: round_even_of_int)
    then show ?thesis unfolding r by (simp add: p)
  next
    case False
    then have e: "e = 24" using e24 by simp
    have n: "n = 2 ^ 24" using w(1) assms unfolding e_def[symmetric] e by simp
    have p: "pow2 (int e - 23) = 2" by (simp add: e pow2_def)
    have "real n / pow2 (int e - 23) = real_of_int (2 ^ 23)" by (simp add: p n)
    then have "round_even (real n / pow2 (int e - 23)) = 2 ^ 23"
      by (simp only: round_even_of_int)
    then show ?thesis unfolding r by (simp add: p n)
  qed
qed

lemma f32_0: "f32 0 = 0"
  by (simp add: f32_def fl_round_def)

lemma f32_1: "f32 1 = 1"
  using f32_nat[of 1] by simp

lemma f32_bit: "v = 0 \<or> v = 1 \<Longrightarrow> f32 v = v"
  using f32_0 f32_1 by auto

lemma f32_add_nat: "a + b \<le> 2 ^ 24 \<Longrightarrow> f32 (real a + real b) = real (a + b)"
  using f32_nat[of "a + b"] by simp

lemma f32_sub_nat: "b \<le> a \<Longrightarrow> a \<le> 2 ^ 24 \<Longrightarrow> f32 (real a - real b) = real (a - b)"
  using f32_nat[of "a - b"] by (simp add: of_nat_diff)

section \<open>Properties: UnaryAdd and UnaryLinear\<close>

lemma shape_tsum_f32: "shape (tsum_f32 d x) = drop_at d (shape x)"
  by (simp add: tsum_f32_def tsum_def tmap_def)

lemma elem_tsum_f32:
  "elem (tsum_f32 d x) j
     = f32 (sum_list (map (\<lambda>k. f32 (elem x (insert_at d k j))) [0..<shape x ! d]))"
  by (simp add: tsum_f32_def tsum_def tmap_def)

lemma sum_list_bits_nat:
  "(\<And>k. k < n \<Longrightarrow> f k = 0 \<or> f k = (1::real)) \<Longrightarrow>
     \<exists>m. m \<le> n \<and> sum_list (map f [0..<n]) = real m"
proof (induction n)
  case 0
  then show ?case by simp
next
  case (Suc n)
  have fn: "f n = 0 \<or> f n = 1" using Suc.prems[of n] by simp
  obtain m where m: "m \<le> n" "sum_list (map f [0..<n]) = real m"
    using Suc.IH Suc.prems by auto
  from fn show ?case
  proof
    assume "f n = 0"
    then show ?thesis using m by (intro exI[of _ m]) simp
  next
    assume "f n = 1"
    then show ?thesis using m by (intro exI[of _ "Suc m"]) simp
  qed
qed

lemma tsum_f32_bits:
  assumes b: "is_bits x" and d: "d < length (shape x)" and v: "valid_idx (drop_at d (shape x)) j"
    and n: "shape x ! d \<le> 2 ^ 24"
  shows "\<exists>m. m \<le> shape x ! d \<and> elem (tsum_f32 d x) j = real m
     \<and> real m = sum_list (map (\<lambda>k. elem x (insert_at d k j)) [0..<shape x ! d])"
proof -
  have bit: "elem x (insert_at d k j) = 0 \<or> elem x (insert_at d k j) = 1"
    if "k < shape x ! d" for k
    using b valid_idx_insert_at[OF d v that] by (simp add: is_bits_def)
  have eq: "map (\<lambda>k. f32 (elem x (insert_at d k j))) [0..<shape x ! d]
          = map (\<lambda>k. elem x (insert_at d k j)) [0..<shape x ! d]"
    using bit by (intro map_cong refl) (simp add: f32_bit)
  from sum_list_bits_nat[of "shape x ! d" "\<lambda>k. elem x (insert_at d k j)", OF bit]
  obtain m where m: "m \<le> shape x ! d"
    "sum_list (map (\<lambda>k. elem x (insert_at d k j)) [0..<shape x ! d]) = real m" by blast
  have "f32 (real m) = real m" using m(1) n by (intro f32_nat) simp
  then show ?thesis using m by (simp add: elem_tsum_f32 eq)
qed

lemma UnaryAdd_forward_scaled:
  assumes s: "scaled st = True"
    and d: "py_dim (length (shape input)) (acc_dim st) = Some d"
    and a: "tzip (\<lambda>a s. f32 (a + s)) (accumulator st) (tsum_f32 d input) = Inr acc"
  shows "\<exists>out acc' st'. UnaryAdd_forward st input = Inr (out, st')
     \<and> out = tmap (\<lambda>a. if a \<ge> f32 (real (shape input ! d)) then 1 else 0) acc
     \<and> tzip (\<lambda>a b. f32 (a - b)) acc
          (tmap (\<lambda>out. f32 (out * f32 (real (shape input ! d)))) out) = Inr acc'
     \<and> shape acc' = shape acc
     \<and> accumulator st' = acc' \<and> acc_bound st' = f32 (real (shape input ! d))
     \<and> scaled st' = True \<and> acc_dim st' = acc_dim st \<and> mode st' = mode st"
proof -
  let ?n = "f32 (real (shape input ! d))"
  let ?out = "tmap (\<lambda>a. if a \<ge> ?n then 1 else 0) acc"
  let ?sub = "tmap (\<lambda>out. f32 (out * ?n)) ?out"
  have sh: "shape acc = shape ?sub" by (simp add: shape_tmap)
  let ?acc' = "\<lparr>shape = shape acc, elem = (\<lambda>idx. f32 (lane acc idx - lane ?sub idx))\<rparr>"
  have z: "tzip (\<lambda>a b. f32 (a - b)) acc ?sub = Inr ?acc'" using tzip_same_shape[OF sh] .
  have zi: "tzip_inplace (\<lambda>a b. f32 (a - b)) acc ?sub = Inr ?acc'"
    using z by (simp add: tzip_inplace_eq_Inr)
  show ?thesis
    using s d a z zi
    by (simp add: UnaryAdd_forward_def of_option_def ebind_Inr Let_def)
qed

lemma UnaryAdd_step_exact:
  assumes s: "scaled st = True"
    and d: "py_dim (length (shape x)) (acc_dim st) = Some d"
    and n: "shape x ! d \<le> 2 ^ 23"
    and b: "is_bits x"
    and r: "bshape (shape (accumulator st)) (drop_at d (shape x)) = Some R"
    and inv: "\<forall>idx. valid_idx (shape (accumulator st)) idx \<longrightarrow>
                (\<exists>a. elem (accumulator st) idx = real a \<and> a < max (shape x ! d) 1)"
  shows "\<exists>out st'. UnaryAdd_forward st x = Inr (out, st')
     \<and> shape (accumulator st') = R \<and> shape out = R
     \<and> scaled st' = True \<and> acc_dim st' = acc_dim st
     \<and> acc_bound st' = real (shape x ! d)
     \<and> (\<forall>idx. valid_idx R idx \<longrightarrow>
            (\<exists>a'. elem (accumulator st') idx = real a' \<and> a' < max (shape x ! d) 1)
          \<and> (elem out idx = 0 \<or> elem out idx = 1)
          \<and> elem (accumulator st') idx + real (shape x ! d) * elem out idx
              = lane (accumulator st) idx
                + sum_list (map (\<lambda>k. elem x (insert_at d k (bidx (drop_at d (shape x)) idx)))
                             [0..<shape x ! d]))
     \<and> (\<forall>idx. valid_idx R idx \<longrightarrow>
            elem out idx
              = (if real (shape x ! d)
                    \<le> lane (accumulator st) idx
                      + sum_list (map (\<lambda>k. elem x (insert_at d k (bidx (drop_at d (shape x)) idx)))
                                   [0..<shape x ! d])
                 then 1 else 0))"
proof -
  let ?n = "shape x ! d"
  have n24: "?n \<le> 2 ^ 24" using n by simp
  have B: "f32 (real ?n) = real ?n" using n24 by (rule f32_nat)
  have dl: "d < length (shape x)" using d by (rule py_dim_less)
  from r obtain acc where a: "tzip (\<lambda>a s. f32 (a + s)) (accumulator st) (tsum_f32 d x) = Inr acc"
    and sa: "shape acc = R"
    by (simp add: tzip_def shape_tsum_f32)
  from UnaryAdd_forward_scaled[OF s d a]
  obtain out acc' st' where f: "UnaryAdd_forward st x = Inr (out, st')"
    and out: "out = tmap (\<lambda>a. if a \<ge> real ?n then 1 else 0) acc"
    and z: "tzip (\<lambda>a b. f32 (a - b)) acc (tmap (\<lambda>out. f32 (out * real ?n)) out) = Inr acc'"
    and sh: "shape acc' = shape acc"
    and st': "accumulator st' = acc'" "scaled st' = True" "acc_dim st' = acc_dim st"
      "acc_bound st' = real ?n"
    unfolding B by blast
  have lane_step: "((\<exists>a'. elem acc' idx = real a' \<and> a' < max ?n 1)
          \<and> (elem out idx = 0 \<or> elem out idx = 1)
          \<and> elem acc' idx + real ?n * elem out idx
              = lane (accumulator st) idx
                + sum_list (map (\<lambda>k. elem x (insert_at d k (bidx (drop_at d (shape x)) idx)))
                             [0..<?n]))
          \<and> elem out idx
              = (if real ?n
                    \<le> lane (accumulator st) idx
                      + sum_list (map (\<lambda>k. elem x (insert_at d k (bidx (drop_at d (shape x)) idx)))
                                   [0..<?n])
                 then 1 else 0)"
    if v: "valid_idx R idx" for idx
  proof -
    have va: "valid_idx (shape (accumulator st)) (bidx (shape (accumulator st)) idx)"
      and vt: "valid_idx (drop_at d (shape x)) (bidx (drop_at d (shape x)) idx)"
      using bshape_valid[OF r v] by simp_all
    from inv va obtain a0 where a0: "lane (accumulator st) idx = real a0" "a0 < max ?n 1"
      by (auto simp: lane_def)
    from tsum_f32_bits[OF b dl vt n24]
    obtain m where m: "m \<le> ?n" "lane (tsum_f32 d x) idx = real m"
      "real m = sum_list (map (\<lambda>k. elem x (insert_at d k (bidx (drop_at d (shape x)) idx)))
                             [0..<?n])"
      by (auto simp: lane_def shape_tsum_f32)
    have le: "a0 + m \<le> 2 ^ 24" using a0(2) m(1) n by (auto simp: max_def split: if_splits)
    have e1: "elem acc idx = real (a0 + m)"
      using tzip_elem[OF a, of idx] a0(1) m(2) f32_add_nat[OF le] by simp
    have v': "valid_idx (shape acc) idx" using v sa by simp
    have o: "elem out idx = (if ?n \<le> a0 + m then 1 else 0)"
      by (simp add: out elem_tmap e1)
    have o': "elem out idx
              = (if real ?n
                    \<le> lane (accumulator st) idx
                      + sum_list (map (\<lambda>k. elem x (insert_at d k (bidx (drop_at d (shape x)) idx)))
                                   [0..<?n])
                 then 1 else 0)"
    proof -
      have "(real ?n \<le> real a0 + real m) = (?n \<le> a0 + m)"
        by (simp only: of_nat_add[symmetric] of_nat_le_iff)
      then show ?thesis unfolding o a0(1) m(3)[symmetric] by simp
    qed
    have lo: "lane out idx = elem out idx"
      by (rule lane_valid) (simp add: out shape_tmap v')
    have e2: "elem acc' idx = f32 (elem acc idx - f32 (elem out idx * real ?n))"
      using tzip_elem[OF z, of idx] lane_valid[OF v'] lo by (simp add: lane_tmap)
    show ?thesis
    proof (cases "?n \<le> a0 + m")
      case True
      have "f32 (real (a0 + m) - real ?n) = real (a0 + m - ?n)"
        using True le by (rule f32_sub_nat)
      then have ea: "elem acc' idx = real (a0 + m - ?n)"
        unfolding e2 e1 o using True B by simp
      have lt: "a0 + m - ?n < max ?n 1" using a0(2) m(1) True by auto
      have c: "real (a0 + m - ?n) + real ?n * 1 = real a0 + real m"
        using True by (simp add: of_nat_diff)
      have o1: "elem out idx = 1" using o True by simp
      have "(\<exists>a'. elem acc' idx = real a' \<and> a' < max ?n 1)
          \<and> (elem out idx = 0 \<or> elem out idx = 1)
          \<and> elem acc' idx + real ?n * elem out idx
              = lane (accumulator st) idx
                + sum_list (map (\<lambda>k. elem x (insert_at d k (bidx (drop_at d (shape x)) idx)))
                             [0..<?n])"
        unfolding ea o1 using lt c a0(1) m(3)[symmetric]
        by (intro conjI exI[of _ "a0 + m - ?n"]) simp_all
      then show ?thesis using o' by blast
    next
      case False
      have ea: "elem acc' idx = real (a0 + m)"
        unfolding e2 e1 o using False f32_nat[OF le] by (simp add: f32_0)
      have lt: "a0 + m < max ?n 1" using False by auto
      have o0: "elem out idx = 0" using o False by simp
      have "(\<exists>a'. elem acc' idx = real a' \<and> a' < max ?n 1)
          \<and> (elem out idx = 0 \<or> elem out idx = 1)
          \<and> elem acc' idx + real ?n * elem out idx
              = lane (accumulator st) idx
                + sum_list (map (\<lambda>k. elem x (insert_at d k (bidx (drop_at d (shape x)) idx)))
                             [0..<?n])"
        unfolding ea o0 using lt a0(1) m(3)[symmetric]
        by (intro conjI exI[of _ "a0 + m"]) simp_all
      then show ?thesis using o' by blast
    qed
  qed
  have so: "shape out = R" by (simp add: out shape_tmap sa)
  have A: "\<forall>idx. valid_idx R idx \<longrightarrow>
            (\<exists>a'. elem (accumulator st') idx = real a' \<and> a' < max ?n 1)
          \<and> (elem out idx = 0 \<or> elem out idx = 1)
          \<and> elem (accumulator st') idx + real ?n * elem out idx
              = lane (accumulator st) idx
                + sum_list (map (\<lambda>k. elem x (insert_at d k (bidx (drop_at d (shape x)) idx)))
                             [0..<?n])"
    unfolding st'(1) using lane_step by blast
  have C: "\<forall>idx. valid_idx R idx \<longrightarrow>
            elem out idx
              = (if real ?n
                    \<le> lane (accumulator st) idx
                      + sum_list (map (\<lambda>k. elem x (insert_at d k (bidx (drop_at d (shape x)) idx)))
                                   [0..<?n])
                 then 1 else 0)"
    using lane_step by blast
  have sR: "shape (accumulator st') = R" using st'(1) sh sa by simp
  from f sR so st'(2,3,4) A C show ?thesis by blast
qed

lemma is_bits_tvec: "(\<forall>v\<in>set xs. v = 0 \<or> v = 1) \<Longrightarrow> is_bits (tvec xs)"
  by (auto simp: is_bits_def valid_idx_def tvec_def list_all2_Cons2)

lemma UnaryAdd_run_exact:
  assumes "scaled st = True"
    and "py_dim (length S) (acc_dim st) = Some d"
    and "S ! d \<le> 2 ^ 23"
    and "\<forall>x\<in>set xs. shape x = S \<and> is_bits x"
    and "bshape (shape (accumulator st)) (drop_at d S) = Some R"
    and "\<forall>idx. valid_idx (shape (accumulator st)) idx \<longrightarrow>
           (\<exists>a. elem (accumulator st) idx = real a \<and> a < max (S ! d) 1)"
  shows "\<exists>outs st'. UnaryAdd_run st xs = Inr (outs, st') \<and> length outs = length xs
     \<and> scaled st' = True \<and> acc_dim st' = acc_dim st
     \<and> (xs \<noteq> [] \<longrightarrow> shape (accumulator st') = R \<and> acc_bound st' = real (S ! d))
     \<and> bshape (shape (accumulator st')) (drop_at d S) = Some R
     \<and> (\<forall>idx. valid_idx (shape (accumulator st')) idx \<longrightarrow>
           (\<exists>a. elem (accumulator st') idx = real a \<and> a < max (S ! d) 1))
     \<and> (\<forall>out\<in>set outs. shape out = R)
     \<and> (\<forall>idx. valid_idx R idx \<longrightarrow>
           (\<forall>out\<in>set outs. elem out idx = 0 \<or> elem out idx = 1)
         \<and> lane (accumulator st') idx + real (S ! d) * (\<Sum>out\<leftarrow>outs. elem out idx)
             = lane (accumulator st) idx
               + (\<Sum>x\<leftarrow>xs. \<Sum>k\<leftarrow>[0..<S ! d].
                    elem x (insert_at d k (bidx (drop_at d S) idx))))"
  using assms
proof (induction xs arbitrary: st)
  case Nil
  then show ?case by simp
next
  case (Cons x xs)
  from Cons.prems(4) have x: "shape x = S" "is_bits x"
    and xs: "\<forall>x\<in>set xs. shape x = S \<and> is_bits x" by simp_all
  from UnaryAdd_step_exact[of st x d R] Cons.prems(1,2,3,5,6) x
  obtain out st1 where f: "UnaryAdd_forward st x = Inr (out, st1)"
    and p: "shape (accumulator st1) = R" "shape out = R" "scaled st1 = True"
      "acc_dim st1 = acc_dim st" "acc_bound st1 = real (S ! d)"
    and i: "\<forall>idx. valid_idx R idx \<longrightarrow>
            (\<exists>a'. elem (accumulator st1) idx = real a' \<and> a' < max (S ! d) 1)
          \<and> (elem out idx = 0 \<or> elem out idx = 1)
          \<and> elem (accumulator st1) idx + real (S ! d) * elem out idx
              = lane (accumulator st) idx
                + sum_list (map (\<lambda>k. elem x (insert_at d k (bidx (drop_at d S) idx)))
                             [0..<S ! d])"
    by auto
  have r: "bshape (shape (accumulator st1)) (drop_at d S) = Some R"
    using bshape_idem[OF Cons.prems(5)] p(1) by simp
  have d1: "py_dim (length S) (acc_dim st1) = Some d" using Cons.prems(2) p(4) by simp
  have i1: "\<forall>idx. valid_idx (shape (accumulator st1)) idx \<longrightarrow>
           (\<exists>a. elem (accumulator st1) idx = real a \<and> a < max (S ! d) 1)"
    using i p(1) by simp
  from Cons.IH[OF p(3) d1 Cons.prems(3) xs r i1]
  obtain outs st' where run: "UnaryAdd_run st1 xs = Inr (outs, st')"
    and l: "length outs = length xs"
    and q: "scaled st' = True" "acc_dim st' = acc_dim st1"
      "xs \<noteq> [] \<longrightarrow> shape (accumulator st') = R \<and> acc_bound st' = real (S ! d)"
      "bshape (shape (accumulator st')) (drop_at d S) = Some R"
    and i': "\<forall>idx. valid_idx (shape (accumulator st')) idx \<longrightarrow>
           (\<exists>a. elem (accumulator st') idx = real a \<and> a < max (S ! d) 1)"
    and so: "\<forall>out\<in>set outs. shape out = R"
    and c: "\<forall>idx. valid_idx R idx \<longrightarrow>
           (\<forall>out\<in>set outs. elem out idx = 0 \<or> elem out idx = 1)
         \<and> lane (accumulator st') idx + real (S ! d) * (\<Sum>out\<leftarrow>outs. elem out idx)
             = lane (accumulator st1) idx
               + (\<Sum>x\<leftarrow>xs. \<Sum>k\<leftarrow>[0..<S ! d].
                    elem x (insert_at d k (bidx (drop_at d S) idx)))"
    by blast
  have e: "UnaryAdd_run st (x # xs) = Inr (out # outs, st')"
    using f run by (simp add: ebind_Inr)
  have sh: "shape (accumulator st') = R \<and> acc_bound st' = real (S ! d)"
  proof (cases "xs = []")
    case True
    then show ?thesis using run p by simp
  next
    case False
    then show ?thesis using q(3) by simp
  qed
  have cons: "(\<forall>y\<in>set (out # outs). elem y idx = 0 \<or> elem y idx = 1)
         \<and> lane (accumulator st') idx + real (S ! d) * (\<Sum>out\<leftarrow>out # outs. elem out idx)
             = lane (accumulator st) idx
               + (\<Sum>x\<leftarrow>x # xs. \<Sum>k\<leftarrow>[0..<S ! d].
                    elem x (insert_at d k (bidx (drop_at d S) idx)))"
    if v: "valid_idx R idx" for idx
  proof -
    have l1: "lane (accumulator st1) idx = elem (accumulator st1) idx"
      by (rule lane_valid) (simp add: p(1) v)
    from i v have s1: "elem out idx = 0 \<or> elem out idx = 1"
      "elem (accumulator st1) idx + real (S ! d) * elem out idx
              = lane (accumulator st) idx
                + sum_list (map (\<lambda>k. elem x (insert_at d k (bidx (drop_at d S) idx)))
                             [0..<S ! d])"
      by simp_all
    from c v have s2: "\<forall>out\<in>set outs. elem out idx = 0 \<or> elem out idx = 1"
      "lane (accumulator st') idx + real (S ! d) * (\<Sum>out\<leftarrow>outs. elem out idx)
             = lane (accumulator st1) idx
               + (\<Sum>x\<leftarrow>xs. \<Sum>k\<leftarrow>[0..<S ! d].
                    elem x (insert_at d k (bidx (drop_at d S) idx)))"
      by simp_all
    show ?thesis using s1 s2 l1 by (simp add: algebra_simps)
  qed
  show ?case
    unfolding e using l q(1,2,4) p(2,4) i' so sh cons by (intro exI[of _ "out # outs"] exI[of _ st']) simp
qed

lemma tsum_f32_tvec:
  "tsum_f32 0 (tvec xs) = \<lparr>shape = [], elem = (\<lambda>idx. f32 (sum_list (map f32 xs)))\<rparr>"
proof -
  have "map (\<lambda>k. f32 (xs ! k)) [0..<length xs] = map f32 (map ((!) xs) [0..<length xs])"
    by (simp add: comp_def)
  also have "\<dots> = map f32 xs" by (simp only: map_nth)
  finally have "map (\<lambda>k. f32 (xs ! k)) [0..<length xs] = map f32 xs" .
  then show ?thesis
    by (simp add: tsum_f32_def tsum_def tmap_def tvec_def drop_at_def insert_at_def)
qed

lemma UnaryAdd_forward_tvec:
  assumes "scaled st = True" "acc_dim st = 0" "accumulator st = tfull [1] a"
  shows "\<exists>st'. UnaryAdd_forward st (tvec xs) =
       Inr (tfull [1] (if f32 (a + f32 (sum_list (map f32 xs))) \<ge> f32 (real (length xs))
                       then 1 else 0), st')
     \<and> scaled st' = True \<and> acc_dim st' = 0 \<and> mode st' = mode st
     \<and> acc_bound st' = f32 (real (length xs))
     \<and> accumulator st' = tfull [1]
               (f32 (f32 (a + f32 (sum_list (map f32 xs)))
                     - f32 ((if f32 (a + f32 (sum_list (map f32 xs))) \<ge> f32 (real (length xs))
                             then 1 else 0) * f32 (real (length xs)))))"
proof -
  have d: "py_dim (length (shape (tvec xs))) (acc_dim st) = Some 0"
    by (simp add: assms(2) tvec_def py_dim_def)
  have n: "shape (tvec xs) ! 0 = length xs" by (simp add: tvec_def)
  have a: "tzip (\<lambda>a s. f32 (a + s)) (accumulator st) (tsum_f32 0 (tvec xs))
     = Inr (tfull [1] (f32 (a + f32 (sum_list (map f32 xs)))))"
    by (simp add: assms(3) tsum_f32_tvec tzip_def tfull_def bshape_Nil2)
  from UnaryAdd_forward_scaled[OF assms(1) d a]
  obtain out acc' st' where f: "UnaryAdd_forward st (tvec xs) = Inr (out, st')"
    and out: "out = tmap (\<lambda>a. if a \<ge> f32 (real (length xs)) then 1 else 0)
                      (tfull [1] (f32 (a + f32 (sum_list (map f32 xs)))))"
    and z: "tzip (\<lambda>a b. f32 (a - b)) (tfull [1] (f32 (a + f32 (sum_list (map f32 xs)))))
          (tmap (\<lambda>out. f32 (out * f32 (real (length xs)))) out) = Inr acc'"
    and st': "accumulator st' = acc'" "acc_bound st' = f32 (real (length xs))"
      "scaled st' = True" "acc_dim st' = acc_dim st" "mode st' = mode st"
    unfolding n by blast
  have o: "out = tfull [1] (if f32 (a + f32 (sum_list (map f32 xs))) \<ge> f32 (real (length xs))
                     then 1 else 0)"
    by (simp add: out tmap_def tfull_def)
  have acc': "acc' = tfull [1]
               (f32 (f32 (a + f32 (sum_list (map f32 xs)))
                     - f32 ((if f32 (a + f32 (sum_list (map f32 xs))) \<ge> f32 (real (length xs))
                             then 1 else 0) * f32 (real (length xs)))))"
    using z unfolding o by (simp add: tzip_def tmap_def tfull_def bshape_same)
  show ?thesis using f st' assms(2) unfolding o acc' by simp
qed

lemma f32_16777217: "f32 16777217 = 16777216"
proof -
  have "fl_round 24 (- 126) 16777217 =
           real_of_int (round_even (16777217 / pow2 (int 24 - int 24 + 1)))
           * pow2 (int 24 - int 24 + 1)"
    by (rule fl_round_at) simp_all
  then show ?thesis by (simp add: f32_def pow2_def round_even_def Let_def)
qed

lemma f32_16777219: "f32 16777219 = 16777220"
proof -
  have "fl_round 24 (- 126) 16777219 =
           real_of_int (round_even (16777219 / pow2 (int 24 - int 24 + 1)))
           * pow2 (int 24 - int 24 + 1)"
    by (rule fl_round_at) simp_all
  then show ?thesis by (simp add: f32_def pow2_def round_even_def Let_def)
qed

lemma UnaryKernel_accumulation_preserves:
  assumes "UnaryKernel_accumulation st input = Inr (k, st1)"
  shows "l_scaled st1 = l_scaled st \<and> l_accumulator st1 = l_accumulator st
     \<and> l_acc_bound st1 = l_acc_bound st"
  using assms unfolding UnaryKernel_accumulation_def Let_def
  by (auto elim!: ebindE split: if_splits prod.splits)

lemma UnaryLinear_forward_scaled:
  assumes s: "l_scaled st = True"
    and k: "UnaryKernel_accumulation st input = Inr (k, st1)"
    and a: "tzip (\<lambda>a k. f32 (a + k)) (l_accumulator st) k = Inr acc"
  shows "\<exists>out acc' st'. UnaryLinear_forward st input = Inr (out, st')
     \<and> out = tmap (\<lambda>a. if a \<ge> l_acc_bound st then 1 else 0) acc
     \<and> tzip (\<lambda>a b. f32 (a - b)) acc (tmap (\<lambda>out. f32 (out * l_acc_bound st)) out) = Inr acc'
     \<and> shape acc' = shape acc
     \<and> l_accumulator st' = acc' \<and> l_acc_bound st' = l_acc_bound st"
proof -
  from UnaryKernel_accumulation_preserves[OF k]
  have p: "l_scaled st1 = l_scaled st" "l_accumulator st1 = l_accumulator st"
    "l_acc_bound st1 = l_acc_bound st" by simp_all
  let ?n = "l_acc_bound st"
  let ?out = "tmap (\<lambda>a. if a \<ge> ?n then (1::real) else 0) acc"
  let ?sub = "tmap (\<lambda>out. f32 (out * ?n)) ?out"
  have sh: "shape acc = shape ?sub" by (simp add: shape_tmap)
  let ?acc' = "\<lparr>shape = shape acc, elem = (\<lambda>idx. f32 (lane acc idx - lane ?sub idx))\<rparr>"
  have z: "tzip (\<lambda>a b. f32 (a - b)) acc ?sub = Inr ?acc'" using tzip_same_shape[OF sh] .
  have zi: "tzip_inplace (\<lambda>a b. f32 (a - b)) acc ?sub = Inr ?acc'"
    using z by (simp add: tzip_inplace_eq_Inr)
  show ?thesis
    using s k a z zi p
    by (simp add: UnaryLinear_forward_def ebind_Inr Let_def)
qed

text \<open>
  Claim C1. A scaled forward call whose broadcast addition is defined returns. With
  \<open>acc\<close> the accumulator after the float32 addition of the float32 sum of the input
  along the reduction axis, every output lane is 1 iff \<open>acc\<close> is at least the bound, the
  float32 of the size of the reduction axis, and the accumulator is left at \<open>acc\<close> minus
  bound times output. On bit inputs with at most \<open>2 ^ 23\<close> lanes along the axis and an
  accumulator of natural numbers below the bound no operation rounds: the bound is the
  size of the axis, the output is 1 iff accumulator plus bit sum reaches it, and the
  accumulator is left at accumulator plus bit sum minus bound times output. UnaryLinear
  does the same with the kernel output of the cycle and its bound. With four unipolar
  lanes carrying the bits 1, 0, 1, 1 and the accumulator at 2, the bound is 4, the call
  emits 1 and leaves the accumulator at 1.
\<close>

theorem scaled_add_step:
  "(scaled st = True \<and> py_dim (length (shape input)) (acc_dim st) = Some d
      \<and> tzip (\<lambda>a s. f32 (a + s)) (accumulator st) (tsum_f32 d input) = Inr acc \<longrightarrow>
      (\<exists>out st'. UnaryAdd_forward st input = Inr (out, st')
         \<and> acc_bound st' = f32 (real (shape input ! d))
         \<and> shape out = shape acc \<and> shape (accumulator st') = shape acc
         \<and> (\<forall>idx. valid_idx (shape acc) idx \<longrightarrow>
               elem acc idx = f32 (lane (accumulator st) idx + lane (tsum_f32 d input) idx)
               \<and> elem out idx = (if elem acc idx \<ge> acc_bound st' then 1 else 0)
               \<and> elem (accumulator st') idx
                   = f32 (elem acc idx - f32 (elem out idx * acc_bound st')))))
   \<and> (scaled st = True \<and> py_dim (length (shape input)) (acc_dim st) = Some d
      \<and> shape input ! d \<le> 2 ^ 23 \<and> is_bits input
      \<and> bshape (shape (accumulator st)) (drop_at d (shape input)) = Some R
      \<and> (\<forall>idx. valid_idx (shape (accumulator st)) idx \<longrightarrow>
            (\<exists>a. elem (accumulator st) idx = real a \<and> a < max (shape input ! d) 1)) \<longrightarrow>
      (\<exists>out st'. UnaryAdd_forward st input = Inr (out, st')
         \<and> acc_bound st' = real (shape input ! d)
         \<and> shape out = R \<and> shape (accumulator st') = R
         \<and> (\<forall>idx. valid_idx R idx \<longrightarrow>
               elem out idx
                 = (if real (shape input ! d)
                       \<le> lane (accumulator st) idx
                         + (\<Sum>k\<leftarrow>[0..<shape input ! d].
                              elem input (insert_at d k (bidx (drop_at d (shape input)) idx)))
                    then 1 else 0)
               \<and> elem (accumulator st') idx
                   = lane (accumulator st) idx
                     + (\<Sum>k\<leftarrow>[0..<shape input ! d].
                          elem input (insert_at d k (bidx (drop_at d (shape input)) idx)))
                     - real (shape input ! d) * elem out idx)))
   \<and> (l_scaled lst = True \<and> UnaryKernel_accumulation lst linput = Inr (k, lst1)
      \<and> tzip (\<lambda>a k. f32 (a + k)) (l_accumulator lst) k = Inr lacc \<longrightarrow>
      (\<exists>out lst'. UnaryLinear_forward lst linput = Inr (out, lst')
         \<and> l_acc_bound lst' = l_acc_bound lst
         \<and> shape out = shape lacc \<and> shape (l_accumulator lst') = shape lacc
         \<and> (\<forall>idx. valid_idx (shape lacc) idx \<longrightarrow>
               elem lacc idx = f32 (lane (l_accumulator lst) idx + lane k idx)
               \<and> elem out idx = (if elem lacc idx \<ge> l_acc_bound lst then 1 else 0)
               \<and> elem (l_accumulator lst') idx
                   = f32 (elem lacc idx - f32 (elem out idx * l_acc_bound lst)))))
   \<and> map_sum id (\<lambda>(out, st'). (shape out, elem out [0], shape (accumulator st'),
                                elem (accumulator st') [0], acc_bound st'))
        (UnaryAdd_forward ((UnaryAdd_init ''unipolar'' True 0)\<lparr>accumulator := tfull [1] 2\<rparr>)
           (tvec [1, 0, 1, 1]))
      = Inr ([1], 1, [1], 1, 4)"
proof (intro conjI impI)
  assume h: "scaled st = True \<and> py_dim (length (shape input)) (acc_dim st) = Some d
      \<and> tzip (\<lambda>a s. f32 (a + s)) (accumulator st) (tsum_f32 d input) = Inr acc"
  then have s: "scaled st = True" and d: "py_dim (length (shape input)) (acc_dim st) = Some d"
    and a: "tzip (\<lambda>a s. f32 (a + s)) (accumulator st) (tsum_f32 d input) = Inr acc"
    by simp_all
  let ?n = "f32 (real (shape input ! d))"
  from UnaryAdd_forward_scaled[OF s d a]
  obtain out acc' st' where f: "UnaryAdd_forward st input = Inr (out, st')"
    and out: "out = tmap (\<lambda>a. if a \<ge> ?n then 1 else 0) acc"
    and z: "tzip (\<lambda>a b. f32 (a - b)) acc (tmap (\<lambda>out. f32 (out * ?n)) out) = Inr acc'"
    and sh: "shape acc' = shape acc"
    and st': "accumulator st' = acc'" "acc_bound st' = ?n"
    by blast
  have e: "elem acc idx = f32 (lane (accumulator st) idx + lane (tsum_f32 d input) idx)
     \<and> elem out idx = (if elem acc idx \<ge> ?n then 1 else 0)
     \<and> elem acc' idx = f32 (elem acc idx - f32 (elem out idx * ?n))"
    if v: "valid_idx (shape acc) idx" for idx
  proof -
    have "elem acc' idx = f32 (lane acc idx - f32 (lane out idx * ?n))"
      using tzip_elem[OF z, of idx] by (simp add: lane_tmap)
    moreover have "lane acc idx = elem acc idx" using v by (rule lane_valid)
    moreover have "lane out idx = elem out idx"
      using v by (simp add: lane_valid out shape_tmap)
    moreover have "elem out idx = (if elem acc idx \<ge> ?n then 1 else 0)"
      by (simp add: out elem_tmap)
    moreover have "elem acc idx = f32 (lane (accumulator st) idx + lane (tsum_f32 d input) idx)"
      by (rule tzip_elem[OF a])
    ultimately show ?thesis by simp
  qed
  have so: "shape out = shape acc" by (simp add: out shape_tmap)
  have sa: "shape (accumulator st') = shape acc" using st'(1) sh by simp
  have E: "\<forall>idx. valid_idx (shape acc) idx \<longrightarrow>
               elem acc idx = f32 (lane (accumulator st) idx + lane (tsum_f32 d input) idx)
               \<and> elem out idx = (if elem acc idx \<ge> acc_bound st' then 1 else 0)
               \<and> elem (accumulator st') idx
                   = f32 (elem acc idx - f32 (elem out idx * acc_bound st'))"
    unfolding st' using e by blast
  from f st'(2) so sa E
  show "\<exists>out st'. UnaryAdd_forward st input = Inr (out, st')
         \<and> acc_bound st' = f32 (real (shape input ! d))
         \<and> shape out = shape acc \<and> shape (accumulator st') = shape acc
         \<and> (\<forall>idx. valid_idx (shape acc) idx \<longrightarrow>
               elem acc idx = f32 (lane (accumulator st) idx + lane (tsum_f32 d input) idx)
               \<and> elem out idx = (if elem acc idx \<ge> acc_bound st' then 1 else 0)
               \<and> elem (accumulator st') idx
                   = f32 (elem acc idx - f32 (elem out idx * acc_bound st')))"
    by blast
next
  assume h: "scaled st = True \<and> py_dim (length (shape input)) (acc_dim st) = Some d
      \<and> shape input ! d \<le> 2 ^ 23 \<and> is_bits input
      \<and> bshape (shape (accumulator st)) (drop_at d (shape input)) = Some R
      \<and> (\<forall>idx. valid_idx (shape (accumulator st)) idx \<longrightarrow>
            (\<exists>a. elem (accumulator st) idx = real a \<and> a < max (shape input ! d) 1))"
  then have s: "scaled st = True" and d: "py_dim (length (shape input)) (acc_dim st) = Some d"
    and n: "shape input ! d \<le> 2 ^ 23" and b: "is_bits input"
    and r: "bshape (shape (accumulator st)) (drop_at d (shape input)) = Some R"
    and inv: "\<forall>idx. valid_idx (shape (accumulator st)) idx \<longrightarrow>
            (\<exists>a. elem (accumulator st) idx = real a \<and> a < max (shape input ! d) 1)"
    by simp_all
  from UnaryAdd_step_exact[OF s d n b r inv]
  obtain out st' where f: "UnaryAdd_forward st input = Inr (out, st')"
    and p: "shape (accumulator st') = R" "shape out = R" "acc_bound st' = real (shape input ! d)"
    and A: "\<forall>idx. valid_idx R idx \<longrightarrow>
            (\<exists>a'. elem (accumulator st') idx = real a' \<and> a' < max (shape input ! d) 1)
          \<and> (elem out idx = 0 \<or> elem out idx = 1)
          \<and> elem (accumulator st') idx + real (shape input ! d) * elem out idx
              = lane (accumulator st) idx
                + sum_list (map (\<lambda>k. elem input (insert_at d k (bidx (drop_at d (shape input)) idx)))
                             [0..<shape input ! d])"
    and C: "\<forall>idx. valid_idx R idx \<longrightarrow>
            elem out idx
              = (if real (shape input ! d)
                    \<le> lane (accumulator st) idx
                      + sum_list (map (\<lambda>k. elem input (insert_at d k (bidx (drop_at d (shape input)) idx)))
                                   [0..<shape input ! d])
                 then 1 else 0)"
    by blast
  have E: "\<forall>idx. valid_idx R idx \<longrightarrow>
               elem out idx
                 = (if real (shape input ! d)
                       \<le> lane (accumulator st) idx
                         + (\<Sum>k\<leftarrow>[0..<shape input ! d].
                              elem input (insert_at d k (bidx (drop_at d (shape input)) idx)))
                    then 1 else 0)
               \<and> elem (accumulator st') idx
                   = lane (accumulator st) idx
                     + (\<Sum>k\<leftarrow>[0..<shape input ! d].
                          elem input (insert_at d k (bidx (drop_at d (shape input)) idx)))
                     - real (shape input ! d) * elem out idx"
  proof (intro allI impI)
    fix idx assume v: "valid_idx R idx"
    from A v have "elem (accumulator st') idx + real (shape input ! d) * elem out idx
              = lane (accumulator st) idx
                + sum_list (map (\<lambda>k. elem input (insert_at d k (bidx (drop_at d (shape input)) idx)))
                             [0..<shape input ! d])" by blast
    then have "elem (accumulator st') idx
                   = lane (accumulator st) idx
                     + (\<Sum>k\<leftarrow>[0..<shape input ! d].
                          elem input (insert_at d k (bidx (drop_at d (shape input)) idx)))
                     - real (shape input ! d) * elem out idx" by linarith
    with C v show "elem out idx
                 = (if real (shape input ! d)
                       \<le> lane (accumulator st) idx
                         + (\<Sum>k\<leftarrow>[0..<shape input ! d].
                              elem input (insert_at d k (bidx (drop_at d (shape input)) idx)))
                    then 1 else 0)
               \<and> elem (accumulator st') idx
                   = lane (accumulator st) idx
                     + (\<Sum>k\<leftarrow>[0..<shape input ! d].
                          elem input (insert_at d k (bidx (drop_at d (shape input)) idx)))
                     - real (shape input ! d) * elem out idx" by blast
  qed
  from f p E
  show "\<exists>out st'. UnaryAdd_forward st input = Inr (out, st')
         \<and> acc_bound st' = real (shape input ! d)
         \<and> shape out = R \<and> shape (accumulator st') = R
         \<and> (\<forall>idx. valid_idx R idx \<longrightarrow>
               elem out idx
                 = (if real (shape input ! d)
                       \<le> lane (accumulator st) idx
                         + (\<Sum>k\<leftarrow>[0..<shape input ! d].
                              elem input (insert_at d k (bidx (drop_at d (shape input)) idx)))
                    then 1 else 0)
               \<and> elem (accumulator st') idx
                   = lane (accumulator st) idx
                     + (\<Sum>k\<leftarrow>[0..<shape input ! d].
                          elem input (insert_at d k (bidx (drop_at d (shape input)) idx)))
                     - real (shape input ! d) * elem out idx)"
    by blast
next
  assume h: "l_scaled lst = True \<and> UnaryKernel_accumulation lst linput = Inr (k, lst1)
      \<and> tzip (\<lambda>a k. f32 (a + k)) (l_accumulator lst) k = Inr lacc"
  then have s: "l_scaled lst = True" and kk: "UnaryKernel_accumulation lst linput = Inr (k, lst1)"
    and a: "tzip (\<lambda>a k. f32 (a + k)) (l_accumulator lst) k = Inr lacc" by simp_all
  let ?n = "l_acc_bound lst"
  from UnaryLinear_forward_scaled[OF s kk a]
  obtain out acc' lst' where f: "UnaryLinear_forward lst linput = Inr (out, lst')"
    and out: "out = tmap (\<lambda>a. if a \<ge> ?n then 1 else 0) lacc"
    and z: "tzip (\<lambda>a b. f32 (a - b)) lacc (tmap (\<lambda>out. f32 (out * ?n)) out) = Inr acc'"
    and sh: "shape acc' = shape lacc"
    and st': "l_accumulator lst' = acc'" "l_acc_bound lst' = ?n"
    by blast
  have e: "elem lacc idx = f32 (lane (l_accumulator lst) idx + lane k idx)
     \<and> elem out idx = (if elem lacc idx \<ge> ?n then 1 else 0)
     \<and> elem acc' idx = f32 (elem lacc idx - f32 (elem out idx * ?n))"
    if v: "valid_idx (shape lacc) idx" for idx
  proof -
    have "elem acc' idx = f32 (lane lacc idx - f32 (lane out idx * ?n))"
      using tzip_elem[OF z, of idx] by (simp add: lane_tmap)
    moreover have "lane lacc idx = elem lacc idx" using v by (rule lane_valid)
    moreover have "lane out idx = elem out idx"
      using v by (simp add: lane_valid out shape_tmap)
    moreover have "elem out idx = (if elem lacc idx \<ge> ?n then 1 else 0)"
      by (simp add: out elem_tmap)
    moreover have "elem lacc idx = f32 (lane (l_accumulator lst) idx + lane k idx)"
      by (rule tzip_elem[OF a])
    ultimately show ?thesis by simp
  qed
  have so: "shape out = shape lacc" by (simp add: out shape_tmap)
  have sa: "shape (l_accumulator lst') = shape lacc" using st'(1) sh by simp
  have E: "\<forall>idx. valid_idx (shape lacc) idx \<longrightarrow>
               elem lacc idx = f32 (lane (l_accumulator lst) idx + lane k idx)
               \<and> elem out idx = (if elem lacc idx \<ge> l_acc_bound lst then 1 else 0)
               \<and> elem (l_accumulator lst') idx
                   = f32 (elem lacc idx - f32 (elem out idx * l_acc_bound lst))"
    unfolding st' using e by blast
  from f st'(2) so sa E
  show "\<exists>out lst'. UnaryLinear_forward lst linput = Inr (out, lst')
         \<and> l_acc_bound lst' = l_acc_bound lst
         \<and> shape out = shape lacc \<and> shape (l_accumulator lst') = shape lacc
         \<and> (\<forall>idx. valid_idx (shape lacc) idx \<longrightarrow>
               elem lacc idx = f32 (lane (l_accumulator lst) idx + lane k idx)
               \<and> elem out idx = (if elem lacc idx \<ge> l_acc_bound lst then 1 else 0)
               \<and> elem (l_accumulator lst') idx
                   = f32 (elem lacc idx - f32 (elem out idx * l_acc_bound lst)))"
    by blast
next
  show "map_sum id (\<lambda>(out, st'). (shape out, elem out [0], shape (accumulator st'),
                                elem (accumulator st') [0], acc_bound st'))
        (UnaryAdd_forward ((UnaryAdd_init ''unipolar'' True 0)\<lparr>accumulator := tfull [1] 2\<rparr>)
           (tvec [1, 0, 1, 1]))
      = Inr ([1], 1, [1], 1, 4)"
    by code_simp
qed

theorem scaled_add_step_witness:
  "\<not> isl (UnaryAdd_forward ((UnaryAdd_init ''unipolar'' True 0)\<lparr>accumulator := tfull [1] 2\<rparr>)
             (tvec [1, 0, 1, 1]))
   \<and> elem (fst (projr (UnaryAdd_forward
        ((UnaryAdd_init ''unipolar'' True 0)\<lparr>accumulator := tfull [1] 2\<rparr>)
        (tvec [1, 0, 1, 1])))) [0] = 1
   \<and> elem (accumulator (snd (projr (UnaryAdd_forward
        ((UnaryAdd_init ''unipolar'' True 0)\<lparr>accumulator := tfull [1] 2\<rparr>)
        (tvec [1, 0, 1, 1]))))) [0] = 1
   \<and> acc_bound (snd (projr (UnaryAdd_forward
        ((UnaryAdd_init ''unipolar'' True 0)\<lparr>accumulator := tfull [1] 2\<rparr>)
        (tvec [1, 0, 1, 1])))) = 4
   \<and> \<not> isl (UnaryLinear_forward
        (projr (UnaryLinear_init 2 1 (tmat 1 2 [[2, 3]]) (tvec [0]) [0, 2, 1, 3] False
                  ''unipolar'' True))
        (tmat 1 2 [[1, 1]]))
   \<and> elem (fst (projr (UnaryLinear_forward
        (projr (UnaryLinear_init 2 1 (tmat 1 2 [[2, 3]]) (tvec [0]) [0, 2, 1, 3] False
                  ''unipolar'' True))
        (tmat 1 2 [[1, 1]])))) [0, 0] = 1
   \<and> elem (l_accumulator (snd (projr (UnaryLinear_forward
        (projr (UnaryLinear_init 2 1 (tmat 1 2 [[2, 3]]) (tvec [0]) [0, 2, 1, 3] False
                  ''unipolar'' True))
        (tmat 1 2 [[1, 1]]))))) [0, 0] = 0"
proof -
  let ?st = "(UnaryAdd_init ''unipolar'' True 0)\<lparr>accumulator := tfull [1] 2\<rparr>"
  let ?x = "tvec [1, 0, 1, 1] :: real tensor"
  let ?acc = "projr (tzip (\<lambda>a s. f32 (a + s)) (accumulator ?st) (tsum_f32 0 ?x))"
  let ?lst = "projr (UnaryLinear_init 2 1 (tmat 1 2 [[2, 3]]) (tvec [0]) [0, 2, 1, 3] False
                  ''unipolar'' True)"
  let ?lx = "tmat 1 2 [[1, 1]] :: int tensor"
  let ?k = "fst (projr (UnaryKernel_accumulation ?lst ?lx))"
  let ?lst1 = "snd (projr (UnaryKernel_accumulation ?lst ?lx))"
  let ?lacc = "projr (tzip (\<lambda>a k. f32 (a + k)) (l_accumulator ?lst) ?k)"
  note T = scaled_add_step[of ?st ?x 0 ?acc "[1]" ?lst ?lx ?k ?lst1 ?lacc]
  have h1: "scaled ?st = True" by code_simp
  have h2: "py_dim (length (shape ?x)) (acc_dim ?st) = Some 0" by code_simp
  have "\<not> isl (tzip (\<lambda>a s. f32 (a + s)) (accumulator ?st) (tsum_f32 0 ?x))" by code_simp
  then have h3: "tzip (\<lambda>a s. f32 (a + s)) (accumulator ?st) (tsum_f32 0 ?x) = Inr ?acc" by simp
  from T[THEN conjunct1, THEN mp, OF conjI[OF h1 conjI[OF h2 h3]]]
  obtain out st' where f: "UnaryAdd_forward ?st ?x = Inr (out, st')"
    and b: "acc_bound st' = f32 (real (shape ?x ! 0))"
    and e: "\<forall>idx. valid_idx (shape ?acc) idx \<longrightarrow>
               elem ?acc idx = f32 (lane (accumulator ?st) idx + lane (tsum_f32 0 ?x) idx)
               \<and> elem out idx = (if elem ?acc idx \<ge> acc_bound st' then 1 else 0)
               \<and> elem (accumulator st') idx
                   = f32 (elem ?acc idx - f32 (elem out idx * acc_bound st'))"
    by blast
  have v: "valid_idx (shape ?acc) [0]" by code_simp
  have b4: "f32 (real (shape ?x ! 0)) = 4" by code_simp
  have l12: "f32 (lane (accumulator ?st) [0] + lane (tsum_f32 0 ?x) [0]) = 5" by code_simp
  have r1: "f32 (5 - f32 (1 * 4)) = 1" by code_simp
  from e v have e0: "elem ?acc [0] = f32 (lane (accumulator ?st) [0] + lane (tsum_f32 0 ?x) [0])"
    and e1: "elem out [0] = (if elem ?acc [0] \<ge> acc_bound st' then 1 else 0)"
    and e2: "elem (accumulator st') [0] = f32 (elem ?acc [0] - f32 (elem out [0] * acc_bound st'))"
    by blast+
  have a5: "elem ?acc [0] = 5" unfolding e0 l12 ..
  have o1: "elem out [0] = 1" unfolding e1 a5 b b4 by simp
  have a1: "elem (accumulator st') [0] = 1" unfolding e2 a5 b b4 o1 by (rule r1)
  have x1: "shape ?x ! 0 \<le> 2 ^ 23" by (simp add: tvec_def)
  have x2: "is_bits ?x" by (rule is_bits_tvec) simp
  have x3: "bshape (shape (accumulator ?st)) (drop_at 0 (shape ?x)) = Some [1]"
    by (simp add: UnaryAdd_init_def tfull_def tvec_def drop_at_def bshape_Nil2)
  have x4: "\<forall>idx. valid_idx (shape (accumulator ?st)) idx \<longrightarrow>
            (\<exists>a. elem (accumulator ?st) idx = real a \<and> a < max (shape ?x ! 0) 1)"
    by (auto simp: UnaryAdd_init_def tfull_def tvec_def intro!: exI[of _ 2])
  from T[THEN conjunct2, THEN conjunct1, THEN mp,
         OF conjI[OF h1 conjI[OF h2 conjI[OF x1 conjI[OF x2 conjI[OF x3 x4]]]]]]
  obtain out2 st2 where f2: "UnaryAdd_forward ?st ?x = Inr (out2, st2)"
    and b2: "acc_bound st2 = real (shape ?x ! 0)"
    by blast
  have b2': "acc_bound st' = 4" using f f2 b2 by (simp add: tvec_def)
  have g1: "l_scaled ?lst = True" by code_simp
  have "\<not> isl (UnaryKernel_accumulation ?lst ?lx)" by code_simp
  then have g2: "UnaryKernel_accumulation ?lst ?lx = Inr (?k, ?lst1)" by simp
  have "\<not> isl (tzip (\<lambda>a k. f32 (a + k)) (l_accumulator ?lst) ?k)" by code_simp
  then have g3: "tzip (\<lambda>a k. f32 (a + k)) (l_accumulator ?lst) ?k = Inr ?lacc" by simp
  from T[THEN conjunct2, THEN conjunct2, THEN conjunct1, THEN mp, OF conjI[OF g1 conjI[OF g2 g3]]]
  obtain lout lst' where lf: "UnaryLinear_forward ?lst ?lx = Inr (lout, lst')"
    and le: "\<forall>idx. valid_idx (shape ?lacc) idx \<longrightarrow>
               elem ?lacc idx = f32 (lane (l_accumulator ?lst) idx + lane ?k idx)
               \<and> elem lout idx = (if elem ?lacc idx \<ge> l_acc_bound ?lst then 1 else 0)
               \<and> elem (l_accumulator lst') idx
                   = f32 (elem ?lacc idx - f32 (elem lout idx * l_acc_bound ?lst))"
    by blast
  have lv: "valid_idx (shape ?lacc) [0, 0]" by code_simp
  have lb: "l_acc_bound ?lst = 2" by code_simp
  have k12: "f32 (lane (l_accumulator ?lst) [0, 0] + lane ?k [0, 0]) = 2" by code_simp
  have r2: "f32 (2 - f32 (1 * 2)) = 0" by code_simp
  from le lv have f0: "elem ?lacc [0, 0] = f32 (lane (l_accumulator ?lst) [0, 0] + lane ?k [0, 0])"
    and f1: "elem lout [0, 0] = (if elem ?lacc [0, 0] \<ge> l_acc_bound ?lst then 1 else 0)"
    and f2': "elem (l_accumulator lst') [0, 0]
               = f32 (elem ?lacc [0, 0] - f32 (elem lout [0, 0] * l_acc_bound ?lst))"
    by blast+
  have c2: "elem ?lacc [0, 0] = 2" unfolding f0 k12 ..
  have p1: "elem lout [0, 0] = 1" unfolding f1 c2 lb by simp
  have p2: "elem (l_accumulator lst') [0, 0] = 0" unfolding f2' c2 lb p1 by (rule r2)
  show ?thesis unfolding f lf using o1 a1 b2' p1 p2 by simp
qed

lemma UnaryAdd_run_append:
  "UnaryAdd_run st (xs @ ys) =
     ebind (UnaryAdd_run st xs) (\<lambda>(outs1, st1).
       ebind (UnaryAdd_run st1 ys) (\<lambda>(outs2, st2). Inr (outs1 @ outs2, st2)))"
proof (induction xs arbitrary: st)
  case Nil
  show ?case
    by (cases "UnaryAdd_run st ys") (auto simp: ebind_def split: prod.splits)
next
  case (Cons x xs)
  show ?case
  proof (cases "UnaryAdd_forward st x")
    case (Inl e)
    then show ?thesis by (simp add: ebind_def)
  next
    case (Inr p)
    obtain out st1 where p: "p = (out, st1)" by (cases p)
    show ?thesis
    proof (cases "UnaryAdd_run st1 xs")
      case (Inl e)
      then show ?thesis using Inr p Cons.IH[of st1] by (simp add: ebind_def)
    next
      case r: (Inr q)
      obtain outs1 st2 where q: "q = (outs1, st2)" by (cases q)
      show ?thesis
        using Inr p r q Cons.IH[of st1]
        by (cases "UnaryAdd_run st2 ys") (auto simp: ebind_def split: prod.splits)
    qed
  qed
qed

lemma f32_8388607: "f32 8388607 = 8388607" using f32_nat[of 8388607] by simp
lemma f32_8388608: "f32 8388608 = 8388608" using f32_nat[of 8388608] by simp
lemma f32_8388609: "f32 8388609 = 8388609" using f32_nat[of 8388609] by simp
lemma f32_8388610: "f32 8388610 = 8388610" using f32_nat[of 8388610] by simp
lemma f32_16777216: "f32 16777216 = 16777216" using f32_nat[of 16777216] by simp
lemma f32_16777220: "f32 16777220 = 16777220"
proof -
  have "fl_round 24 (- 126) 16777220 =
           real_of_int (round_even (16777220 / pow2 (int 24 - int 24 + 1)))
           * pow2 (int 24 - int 24 + 1)"
    by (rule fl_round_at) simp_all
  then show ?thesis by (simp add: f32_def pow2_def round_even_def Let_def)
qed

lemma sum_f32_bits_replicate:
  "sum_list (map f32 (replicate m 1)) = real m"
  "sum_list (map f32 (0 # replicate m 1)) = real m"
  by (simp_all add: sum_list_replicate f32_0 f32_1)

lemma UnaryAdd_run_two_tvec:
  assumes "UnaryAdd_forward st0 (tvec xs1) = Inr (o1, st1)"
    and "UnaryAdd_forward st1 (tvec xs2) = Inr (o2, st2)"
  shows "UnaryAdd_run st0 [tvec xs1, tvec xs2] = Inr ([o1, o2], st2)"
  using assms by (simp add: ebind_Inr)

lemma UnaryAdd_two_calls_8388609:
  "\<exists>st2. UnaryAdd_run (UnaryAdd_init ''unipolar'' True 0)
            [tvec (0 # replicate 8388608 1), tvec (replicate 8388609 1)]
          = Inr ([tfull [1] 0, tfull [1] 1], st2)
     \<and> acc_bound st2 = 8388609 \<and> accumulator st2 = tfull [1] 8388607"
proof -
  let ?st0 = "UnaryAdd_init ''unipolar'' True 0"
  have a: "scaled ?st0 = True" "acc_dim ?st0 = 0" "accumulator ?st0 = tfull [1] 0"
    by (simp_all add: UnaryAdd_init_def)
  from UnaryAdd_forward_tvec[OF a, of "0 # replicate 8388608 1"]
  obtain st1 where f1: "UnaryAdd_forward ?st0 (tvec (0 # replicate 8388608 1))
       = Inr (tfull [1] 0, st1)"
    and p1: "scaled st1 = True" "acc_dim st1 = 0" "accumulator st1 = tfull [1] 8388608"
    by (auto simp: sum_list_replicate f32_0 f32_1 f32_8388608 f32_8388609)
  from UnaryAdd_forward_tvec[OF p1, of "replicate 8388609 1"]
  obtain st2 where f2: "UnaryAdd_forward st1 (tvec (replicate 8388609 1))
       = Inr (tfull [1] 1, st2)"
    and p2: "acc_bound st2 = 8388609" "accumulator st2 = tfull [1] 8388607"
    by (auto simp: sum_list_replicate f32_0 f32_1 f32_8388607 f32_8388609 f32_16777217
        f32_16777216)
  from UnaryAdd_run_two_tvec[OF f1 f2] p2 show ?thesis by blast
qed

lemma bshape_one_exists: "\<exists>R. bshape [1] s = Some R"
  using bshape_Nil2[of "[1]"] bshape_one1[of s] by (cases "s = []") auto

lemma UnaryAdd_init_invariant:
  "\<forall>idx. valid_idx (shape (accumulator (UnaryAdd_init m True dm))) idx \<longrightarrow>
     (\<exists>a. elem (accumulator (UnaryAdd_init m True dm)) idx = real a \<and> a < max n 1)"
  by (auto simp: UnaryAdd_init_def tfull_def intro!: exI[of _ 0])

text \<open>
  Claim C2, as stated, fails once the reduction axis has more than \<open>2 ^ 23\<close> lanes. With
  \<open>2 ^ 23 + 1\<close> lanes, a first call on the bits 0, 1, ..., 1 and a second call on all
  ones: the bound is 8388609, the outputs are 0 and 1 and the accumulator goes from 0 to
  8388607, so bound times outputs plus the accumulator delta is 16777216, while the two
  inputs hold 16777217 ones: the float32 addition 8388608 + 8388609 rounds to 16777216.
\<close>

theorem UnaryAdd_conservation_loses_a_bit:
  "\<not> isl (UnaryAdd_run (UnaryAdd_init ''unipolar'' True 0)
            [tvec (0 # replicate 8388608 1), tvec (replicate 8388609 1)])
   \<and> acc_bound (snd (projr (UnaryAdd_run (UnaryAdd_init ''unipolar'' True 0)
            [tvec (0 # replicate 8388608 1), tvec (replicate 8388609 1)]))) = 8388609
   \<and> acc_bound (snd (projr (UnaryAdd_run (UnaryAdd_init ''unipolar'' True 0)
            [tvec (0 # replicate 8388608 1), tvec (replicate 8388609 1)])))
       * (elem (fst (projr (UnaryAdd_run (UnaryAdd_init ''unipolar'' True 0)
            [tvec (0 # replicate 8388608 1), tvec (replicate 8388609 1)])) ! 0) [0]
          + elem (fst (projr (UnaryAdd_run (UnaryAdd_init ''unipolar'' True 0)
            [tvec (0 # replicate 8388608 1), tvec (replicate 8388609 1)])) ! 1) [0])
     + (elem (accumulator (snd (projr (UnaryAdd_run (UnaryAdd_init ''unipolar'' True 0)
            [tvec (0 # replicate 8388608 1), tvec (replicate 8388609 1)])))) [0]
        - elem (accumulator (UnaryAdd_init ''unipolar'' True 0)) [0])
     = 16777216
   \<and> sum_list (0 # replicate 8388608 1) + sum_list (replicate 8388609 (1::real)) = 16777217"
proof -
  from UnaryAdd_two_calls_8388609 obtain st2 where
    r: "UnaryAdd_run (UnaryAdd_init ''unipolar'' True 0)
            [tvec (0 # replicate 8388608 1), tvec (replicate 8388609 1)]
          = Inr ([tfull [1] 0, tfull [1] 1], st2)"
    and p: "acc_bound st2 = 8388609" "accumulator st2 = tfull [1] 8388607"
    by blast
  have s: "sum_list (0 # replicate 8388608 1) + sum_list (replicate 8388609 (1::real)) = 16777217"
    by (simp add: sum_list_replicate)
  show ?thesis unfolding r using p s by (simp add: tfull_def UnaryAdd_init_def)
qed

text \<open>
  Claim C2, amended. From the constructed scaled instance, on bit inputs of one shape
  whose reduction axis has at most \<open>2 ^ 23\<close> lanes, every run returns, and over every
  window of consecutive forward calls of it, in every accumulator lane, the bound times
  the number of emitted ones plus the accumulator after the window minus the
  accumulator before it is the number of input ones that the reduction axis adds into
  that lane over the window.
\<close>

theorem UnaryAdd_scaled_conservation:
  assumes "py_dim (length S) dm = Some d"
    and "S ! d \<le> 2 ^ 23"
    and "\<forall>x\<in>set (xs @ ys). shape x = S \<and> is_bits x"
    and "bshape [1] (drop_at d S) = Some R"
    and "valid_idx R idx"
  shows "\<exists>outs1 st1 outs2 st2.
       UnaryAdd_run (UnaryAdd_init m True dm) xs = Inr (outs1, st1)
     \<and> UnaryAdd_run st1 ys = Inr (outs2, st2)
     \<and> UnaryAdd_run (UnaryAdd_init m True dm) (xs @ ys) = Inr (outs1 @ outs2, st2)
     \<and> length outs2 = length ys
     \<and> (ys \<noteq> [] \<longrightarrow> acc_bound st2 = real (S ! d))
     \<and> real (S ! d) * (\<Sum>out\<leftarrow>outs2. elem out idx)
         + (lane (accumulator st2) idx - lane (accumulator st1) idx)
       = (\<Sum>x\<leftarrow>ys. \<Sum>k\<leftarrow>[0..<S ! d]. elem x (insert_at d k (bidx (drop_at d S) idx)))"
proof -
  let ?st0 = "UnaryAdd_init m True dm"
  have s0: "scaled ?st0 = True" by (simp add: UnaryAdd_init_def)
  have d0: "py_dim (length S) (acc_dim ?st0) = Some d"
    using assms(1) by (simp add: UnaryAdd_init_def)
  have r0: "bshape (shape (accumulator ?st0)) (drop_at d S) = Some R"
    using assms(4) by (simp add: UnaryAdd_init_def tfull_def)
  from assms(3) have xs: "\<forall>x\<in>set xs. shape x = S \<and> is_bits x"
    and ys: "\<forall>x\<in>set ys. shape x = S \<and> is_bits x" by simp_all
  from UnaryAdd_run_exact[OF s0 d0 assms(2) xs r0 UnaryAdd_init_invariant]
  obtain outs1 st1 where run1: "UnaryAdd_run ?st0 xs = Inr (outs1, st1)"
    and p1: "scaled st1 = True" "acc_dim st1 = acc_dim ?st0"
      "bshape (shape (accumulator st1)) (drop_at d S) = Some R"
    and i1: "\<forall>idx. valid_idx (shape (accumulator st1)) idx \<longrightarrow>
           (\<exists>a. elem (accumulator st1) idx = real a \<and> a < max (S ! d) 1)"
    by blast
  have d1: "py_dim (length S) (acc_dim st1) = Some d" using d0 p1(2) by simp
  from UnaryAdd_run_exact[OF p1(1) d1 assms(2) ys p1(3) i1]
  obtain outs2 st2 where run2: "UnaryAdd_run st1 ys = Inr (outs2, st2)"
    and l2: "length outs2 = length ys"
    and b2: "ys \<noteq> [] \<longrightarrow> shape (accumulator st2) = R \<and> acc_bound st2 = real (S ! d)"
    and c2: "\<forall>idx. valid_idx R idx \<longrightarrow>
           (\<forall>out\<in>set outs2. elem out idx = 0 \<or> elem out idx = 1)
         \<and> lane (accumulator st2) idx + real (S ! d) * (\<Sum>out\<leftarrow>outs2. elem out idx)
             = lane (accumulator st1) idx
               + (\<Sum>x\<leftarrow>ys. \<Sum>k\<leftarrow>[0..<S ! d].
                    elem x (insert_at d k (bidx (drop_at d S) idx)))"
    by blast
  have app: "UnaryAdd_run ?st0 (xs @ ys) = Inr (outs1 @ outs2, st2)"
    by (simp add: UnaryAdd_run_append run1 run2 ebind_Inr)
  from c2 assms(5)
  have "lane (accumulator st2) idx + real (S ! d) * (\<Sum>out\<leftarrow>outs2. elem out idx)
             = lane (accumulator st1) idx
               + (\<Sum>x\<leftarrow>ys. \<Sum>k\<leftarrow>[0..<S ! d].
                    elem x (insert_at d k (bidx (drop_at d S) idx)))" by blast
  then have c: "real (S ! d) * (\<Sum>out\<leftarrow>outs2. elem out idx)
         + (lane (accumulator st2) idx - lane (accumulator st1) idx)
       = (\<Sum>x\<leftarrow>ys. \<Sum>k\<leftarrow>[0..<S ! d]. elem x (insert_at d k (bidx (drop_at d S) idx)))"
    by linarith
  from run1 run2 app l2 b2 c show ?thesis by blast
qed

theorem UnaryAdd_scaled_conservation_witness:
  "\<not> isl (UnaryAdd_run (UnaryAdd_init ''unipolar'' True 0) [tvec [1, 0, 1, 1]])
   \<and> \<not> isl (UnaryAdd_run
        (snd (projr (UnaryAdd_run (UnaryAdd_init ''unipolar'' True 0) [tvec [1, 0, 1, 1]])))
        [tvec [1, 1, 1, 1], tvec [0, 1, 1, 0]])
   \<and> 4 * (\<Sum>out\<leftarrow>fst (projr (UnaryAdd_run
        (snd (projr (UnaryAdd_run (UnaryAdd_init ''unipolar'' True 0) [tvec [1, 0, 1, 1]])))
        [tvec [1, 1, 1, 1], tvec [0, 1, 1, 0]])). elem out [0])
     + (lane (accumulator (snd (projr (UnaryAdd_run
        (snd (projr (UnaryAdd_run (UnaryAdd_init ''unipolar'' True 0) [tvec [1, 0, 1, 1]])))
        [tvec [1, 1, 1, 1], tvec [0, 1, 1, 0]])))) [0]
        - lane (accumulator (snd (projr (UnaryAdd_run (UnaryAdd_init ''unipolar'' True 0)
             [tvec [1, 0, 1, 1]])))) [0])
     = 6"
proof -
  let ?st0 = "UnaryAdd_init ''unipolar'' True 0"
  let ?xs = "[tvec [1, 0, 1, 1]] :: real tensor list"
  let ?ys = "[tvec [1, 1, 1, 1], tvec [0, 1, 1, 0]] :: real tensor list"
  have d: "py_dim (length [4::nat]) 0 = Some 0" by (simp add: py_dim_def)
  have n: "[4::nat] ! 0 \<le> 2 ^ 23" by simp
  have b: "\<forall>x\<in>set (?xs @ ?ys). shape x = [4] \<and> is_bits x"
    by (simp add: is_bits_tvec) (simp add: tvec_def)
  have r: "bshape [1] (drop_at 0 [4::nat]) = Some [1]" by (simp add: drop_at_def bshape_Nil2)
  have v: "valid_idx [1] [0]" by (simp add: valid_idx_def)
  from UnaryAdd_scaled_conservation[OF d n b r v, of "''unipolar''"]
  obtain outs1 st1 outs2 st2 where run1: "UnaryAdd_run ?st0 ?xs = Inr (outs1, st1)"
    and run2: "UnaryAdd_run st1 ?ys = Inr (outs2, st2)"
    and c: "real ([4] ! 0) * (\<Sum>out\<leftarrow>outs2. elem out [0])
         + (lane (accumulator st2) [0] - lane (accumulator st1) [0])
       = (\<Sum>x\<leftarrow>?ys. \<Sum>k\<leftarrow>[0..<[4] ! 0]. elem x (insert_at 0 k (bidx (drop_at 0 [4]) [0])))"
    by blast
  have rhs: "(\<Sum>x\<leftarrow>?ys. \<Sum>k\<leftarrow>[0..<[4] ! 0].
                elem x (insert_at 0 k (bidx (drop_at 0 [4::nat]) [0]))) = (6::real)"
    by code_simp
  have n4: "real ([4] ! 0) = 4" by simp
  show ?thesis unfolding run1 sum.sel snd_conv run2 using c unfolding rhs n4 by simp
qed

lemma UnaryAdd_two_calls_8388610:
  "\<exists>st2. UnaryAdd_run (UnaryAdd_init ''unipolar'' True 0)
            [tvec (0 # replicate 8388609 1), tvec (replicate 8388610 1)]
          = Inr ([tfull [1] 0, tfull [1] 1], st2)
     \<and> acc_bound st2 = 8388610 \<and> accumulator st2 = tfull [1] 8388610"
proof -
  let ?st0 = "UnaryAdd_init ''unipolar'' True 0"
  have a: "scaled ?st0 = True" "acc_dim ?st0 = 0" "accumulator ?st0 = tfull [1] 0"
    by (simp_all add: UnaryAdd_init_def)
  from UnaryAdd_forward_tvec[OF a, of "0 # replicate 8388609 1"]
  obtain st1 where f1: "UnaryAdd_forward ?st0 (tvec (0 # replicate 8388609 1))
       = Inr (tfull [1] 0, st1)"
    and p1: "scaled st1 = True" "acc_dim st1 = 0" "accumulator st1 = tfull [1] 8388609"
    by (auto simp: sum_list_replicate f32_0 f32_1 f32_8388609 f32_8388610)
  from UnaryAdd_forward_tvec[OF p1, of "replicate 8388610 1"]
  obtain st2 where f2: "UnaryAdd_forward st1 (tvec (replicate 8388610 1))
       = Inr (tfull [1] 1, st2)"
    and p2: "acc_bound st2 = 8388610" "accumulator st2 = tfull [1] 8388610"
    by (auto simp: sum_list_replicate f32_0 f32_1 f32_8388610 f32_16777219 f32_16777220)
  from UnaryAdd_run_two_tvec[OF f1 f2] p2 show ?thesis by blast
qed

text \<open>
  Claim C9, as stated, fails at both ends of the range of axis sizes. On an empty
  reduction axis the bound is 0 and the accumulator stays at 0, which is not below the
  bound. With \<open>2 ^ 23 + 2\<close> lanes, after a call on the bits 0, 1, ..., 1 and a call on all
  ones the accumulator is 8388610, the bound itself: the float32 addition
  8388609 + 8388610 rounds up to 16777220.
\<close>

theorem UnaryAdd_accumulator_not_below_bound:
  "\<not> isl (UnaryAdd_forward (UnaryAdd_init ''unipolar'' True 0) (tvec []))
   \<and> acc_bound (snd (projr (UnaryAdd_forward (UnaryAdd_init ''unipolar'' True 0) (tvec [])))) = 0
   \<and> elem (accumulator (snd (projr
        (UnaryAdd_forward (UnaryAdd_init ''unipolar'' True 0) (tvec []))))) [0] = 0
   \<and> \<not> isl (UnaryAdd_run (UnaryAdd_init ''unipolar'' True 0)
            [tvec (0 # replicate 8388609 1), tvec (replicate 8388610 1)])
   \<and> acc_bound (snd (projr (UnaryAdd_run (UnaryAdd_init ''unipolar'' True 0)
            [tvec (0 # replicate 8388609 1), tvec (replicate 8388610 1)]))) = 8388610
   \<and> elem (accumulator (snd (projr (UnaryAdd_run (UnaryAdd_init ''unipolar'' True 0)
            [tvec (0 # replicate 8388609 1), tvec (replicate 8388610 1)])))) [0] = 8388610"
proof -
  from UnaryAdd_two_calls_8388610 obtain st2 where
    r: "UnaryAdd_run (UnaryAdd_init ''unipolar'' True 0)
            [tvec (0 # replicate 8388609 1), tvec (replicate 8388610 1)]
          = Inr ([tfull [1] 0, tfull [1] 1], st2)"
    and p: "acc_bound st2 = 8388610" "accumulator st2 = tfull [1] 8388610"
    by blast
  have a: "scaled (UnaryAdd_init ''unipolar'' True 0) = True"
    "acc_dim (UnaryAdd_init ''unipolar'' True 0) = 0"
    "accumulator (UnaryAdd_init ''unipolar'' True 0) = tfull [1] 0"
    by (simp_all add: UnaryAdd_init_def)
  from UnaryAdd_forward_tvec[OF a, of "[]"]
  obtain st1 where f: "UnaryAdd_forward (UnaryAdd_init ''unipolar'' True 0) (tvec [])
       = Inr (tfull [1] 1, st1)"
    and q: "acc_bound st1 = 0" "accumulator st1 = tfull [1] 0"
    by (auto simp: f32_0)
  show ?thesis unfolding r f using p q by (simp add: tfull_def)
qed

text \<open>
  Claim C9, amended. From the scaled constructor state, every run of forward calls on
  bit inputs of one shape whose reduction axis has at least one and at most \<open>2 ^ 23\<close>
  lanes returns, and after it every accumulator lane is at least 0 and below the bound,
  the size of the reduction axis.
\<close>

theorem UnaryAdd_scaled_accumulator_bounded:
  assumes "py_dim (length S) dm = Some d"
    and "0 < S ! d" and "S ! d \<le> 2 ^ 23"
    and "\<forall>x\<in>set xs. shape x = S \<and> is_bits x"
  shows "\<exists>outs st. UnaryAdd_run (UnaryAdd_init m True dm) xs = Inr (outs, st)
           \<and> length outs = length xs
           \<and> (xs \<noteq> [] \<longrightarrow> acc_bound st = real (S ! d))
           \<and> (\<forall>idx. valid_idx (shape (accumulator st)) idx \<longrightarrow>
                 0 \<le> elem (accumulator st) idx \<and> elem (accumulator st) idx < real (S ! d))"
proof -
  let ?st0 = "UnaryAdd_init m True dm"
  have s0: "scaled ?st0 = True" by (simp add: UnaryAdd_init_def)
  have d0: "py_dim (length S) (acc_dim ?st0) = Some d"
    using assms(1) by (simp add: UnaryAdd_init_def)
  obtain R where "bshape [1] (drop_at d S) = Some R" using bshape_one_exists by blast
  then have r0: "bshape (shape (accumulator ?st0)) (drop_at d S) = Some R"
    by (simp add: UnaryAdd_init_def tfull_def)
  from UnaryAdd_run_exact[OF s0 d0 assms(3) assms(4) r0 UnaryAdd_init_invariant]
  obtain outs st where run: "UnaryAdd_run ?st0 xs = Inr (outs, st)"
    and l: "length outs = length xs"
    and b: "xs \<noteq> [] \<longrightarrow> shape (accumulator st) = R \<and> acc_bound st = real (S ! d)"
    and i: "\<forall>idx. valid_idx (shape (accumulator st)) idx \<longrightarrow>
           (\<exists>a. elem (accumulator st) idx = real a \<and> a < max (S ! d) 1)"
    by blast
  have "0 \<le> elem (accumulator st) idx \<and> elem (accumulator st) idx < real (S ! d)"
    if v: "valid_idx (shape (accumulator st)) idx" for idx
  proof -
    from i v obtain a where a: "elem (accumulator st) idx = real a" "a < max (S ! d) 1" by blast
    have "a < S ! d" using a(2) assms(2) by (simp add: max_def split: if_splits)
    then show ?thesis using a(1) by simp
  qed
  with run l b show ?thesis by blast
qed

theorem UnaryAdd_scaled_accumulator_bounded_witness:
  "\<not> isl (UnaryAdd_run (UnaryAdd_init ''unipolar'' True 0)
            [tvec [1, 0, 1, 1], tvec [1, 1, 1, 1], tvec [0, 1, 1, 0]])
   \<and> acc_bound (snd (projr (UnaryAdd_run (UnaryAdd_init ''unipolar'' True 0)
            [tvec [1, 0, 1, 1], tvec [1, 1, 1, 1], tvec [0, 1, 1, 0]]))) = 4
   \<and> 0 \<le> elem (accumulator (snd (projr (UnaryAdd_run (UnaryAdd_init ''unipolar'' True 0)
            [tvec [1, 0, 1, 1], tvec [1, 1, 1, 1], tvec [0, 1, 1, 0]])))) [0]
   \<and> elem (accumulator (snd (projr (UnaryAdd_run (UnaryAdd_init ''unipolar'' True 0)
            [tvec [1, 0, 1, 1], tvec [1, 1, 1, 1], tvec [0, 1, 1, 0]])))) [0] < 4"
proof -
  let ?xs = "[tvec [1, 0, 1, 1], tvec [1, 1, 1, 1], tvec [0, 1, 1, 0]] :: real tensor list"
  have d: "py_dim (length [4::nat]) 0 = Some 0" by (simp add: py_dim_def)
  have n: "0 < [4::nat] ! 0" "[4::nat] ! 0 \<le> 2 ^ 23" by simp_all
  have b: "\<forall>x\<in>set ?xs. shape x = [4] \<and> is_bits x"
    by (simp add: is_bits_tvec) (simp add: tvec_def)
  from UnaryAdd_scaled_accumulator_bounded[OF d n b, of "''unipolar''"]
  obtain outs st where f: "UnaryAdd_run (UnaryAdd_init ''unipolar'' True 0) ?xs = Inr (outs, st)"
    and bd: "acc_bound st = real ([4] ! 0)"
    and i: "\<forall>idx. valid_idx (shape (accumulator st)) idx \<longrightarrow>
                 0 \<le> elem (accumulator st) idx \<and> elem (accumulator st) idx < real ([4] ! 0)"
    by auto
  have "valid_idx (shape (accumulator (snd (projr (UnaryAdd_run
          (UnaryAdd_init ''unipolar'' True 0) ?xs))))) [0]" by code_simp
  then have "valid_idx (shape (accumulator st)) [0]" unfolding f by simp
  with i have "0 \<le> elem (accumulator st) [0] \<and> elem (accumulator st) [0] < real ([4] ! 0)"
    by blast
  then show ?thesis unfolding f using bd by simp
qed

section \<open>Properties: the order of output and state update\<close>












end
